theory Spec2Isabelle
  imports Complex_Main "HOL-Library.Log_Nat"
begin

section \<open>Python values: exceptions, integers and floats\<close>

text \<open>
  The two scripts \<^verbatim>\<open>scripts/convert_feature_graphic.py\<close> and
  \<^verbatim>\<open>scripts/convert_screenshots.py\<close> compute with Python integers (unbounded, modelled
  as \<^typ>\<open>int\<close>) and Python floats (IEEE 754 binary64). An exception is a value of
  \<open>exn\<close>; a computation that may raise returns \<open>exn + 'a\<close>, \<open>Inl\<close> being the raise.
\<close>

datatype exn =
  ZeroDivisionError | OverflowError | ValueError | FileNotFoundError | UnidentifiedImageError

definition bind_exn :: "exn + 'a \<Rightarrow> ('a \<Rightarrow> exn + 'b) \<Rightarrow> exn + 'b" where
  "bind_exn m f = (case m of Inl e \<Rightarrow> Inl e | Inr v \<Rightarrow> f v)"

subsection \<open>Binary64 rounding\<close>

text \<open>
  A finite float is the rational number it denotes. Every arithmetic operation of IEEE 754
  returns the exact result rounded to the nearest representable number, ties to the even
  significand. \<open>ilog2 x\<close> is the binary exponent of a positive \<open>x\<close>
  (\<open>2 powi ilog2 x \<le> x < 2 powi (ilog2 x + 1)\<close>); the spacing of the floats around \<open>x\<close>
  is \<open>2 powi (ilog2 x - 52)\<close> (53 significant bits), and never finer than \<open>2 powi - 1074\<close>
  (subnormal numbers). The sign of a zero is not represented: the program only ever
  truncates, compares and multiplies its floats, where both zeros behave alike.
\<close>

definition ilog2 :: "rat \<Rightarrow> int" where
  "ilog2 x = (case quotient_of x of (p, q) \<Rightarrow>
     let d = int (floorlog 2 (nat p)) - int (floorlog 2 (nat q))
     in if 2 powi d \<le> x then d else d - 1)"

definition round_half_even :: "rat \<Rightarrow> int" where
  "round_half_even y = (let f = \<lfloor>y\<rfloor>; r = y - of_int f
     in if r < 1 / 2 then f else if 1 / 2 < r then f + 1 else if even f then f else f + 1)"

definition rnd53 :: "rat \<Rightarrow> rat" where
  "rnd53 x = (if x = 0 then 0 else
     let q = 2 powi (max (ilog2 \<bar>x\<bar> - 52) (- 1074))
     in sgn x * of_int (round_half_even (\<bar>x\<bar> / q)) * q)"

text \<open>
  The unit roundoff: rounding a number in the normal range changes it by at most this
  fraction of itself.
\<close>

definition unit_roundoff :: rat where
  "unit_roundoff = 1 / 2 ^ 53"

text \<open>
  A rounded result of magnitude \<open>2 ^ 1024\<close> or more is not a finite float. Python raises
  \<open>OverflowError\<close> when an int does not convert to a float and when the quotient of two
  ints is too large. A float product that overflows is an infinity and raises nothing by
  itself; in this program the only products that can overflow are the arguments of
  \<^verbatim>\<open>int(...)\<close> (lines 23 and 24 of both scripts), and \<^verbatim>\<open>int\<close> of an infinity raises
  \<open>OverflowError\<close>, so the model raises it at the product.
\<close>

definition finite_double :: "rat \<Rightarrow> exn + rat" where
  "finite_double r = (if 2 ^ 1024 \<le> \<bar>r\<bar> then Inl OverflowError else Inr r)"

definition float_of_int :: "int \<Rightarrow> exn + rat" where
  "float_of_int n = finite_double (rnd53 (of_int n))"

definition float_lit :: "rat \<Rightarrow> rat" where
  "float_lit q = rnd53 q"

definition int_truediv :: "int \<Rightarrow> int \<Rightarrow> exn + rat" where
  "int_truediv a b =
     (if b = 0 then Inl ZeroDivisionError else finite_double (rnd53 (of_int a / of_int b)))"

definition float_mul :: "rat \<Rightarrow> rat \<Rightarrow> exn + rat" where
  "float_mul x y = finite_double (rnd53 (x * y))"

definition float_truediv :: "rat \<Rightarrow> rat \<Rightarrow> exn + rat" where
  "float_truediv x y =
     (if y = 0 then Inl ZeroDivisionError else finite_double (rnd53 (x / y)))"

definition int_mul_float :: "int \<Rightarrow> rat \<Rightarrow> exn + rat" where
  "int_mul_float n y = bind_exn (float_of_int n) (\<lambda>x. float_mul x y)"

definition float_div_int :: "rat \<Rightarrow> int \<Rightarrow> exn + rat" where
  "float_div_int x n = bind_exn (float_of_int n) (\<lambda>y. float_truediv x y)"

definition float_trunc :: "rat \<Rightarrow> int" where
  "float_trunc x = (if 0 \<le> x then \<lfloor>x\<rfloor> else \<lceil>x\<rceil>)"

section \<open>Images and the imaging library\<close>

text \<open>
  An image has a colour mode, a size and one pixel (a list of band values) at every position
  inside its size. The imaging library (PIL) is not part of the repository. Its operations
  with a simple, documented meaning are defined here: \<^verbatim>\<open>Image.new\<close> (a canvas of the
  requested size in one colour, \<open>ValueError\<close> for a negative size), \<^verbatim>\<open>paste\<close> at a
  position (opaque overwrite, clipped to the canvas), \<^verbatim>\<open>Image.open\<close> and \<^verbatim>\<open>save\<close>.
  The operations whose result depends on the library's algorithms and version, the colour
  conversion \<^verbatim>\<open>convert('RGB')\<close> and the resampling \<^verbatim>\<open>resize(size, LANCZOS)\<close>, are
  parameters of the model, collected in a record \<open>pil\<close>. The scripts name
  \<^verbatim>\<open>Image.Resampling\<close>, so they run on the versions of the library whose resize raises
  \<open>ValueError\<close> for a side below 1; a theorem that depends on that refusal says so in a
  hypothesis on \<open>lib_resize\<close>.
\<close>

record image =
  mode :: string
  width :: nat
  height :: nat
  pixel :: "nat \<Rightarrow> nat \<Rightarrow> nat list"

record pil =
  lib_convert_rgb :: "image \<Rightarrow> image"
  lib_resize :: "image \<Rightarrow> int \<times> int \<Rightarrow> exn + image"

definition background :: "nat list" where
  "background = [23, 20, 41]"

definition Image_new :: "string \<Rightarrow> int \<times> int \<Rightarrow> nat list \<Rightarrow> exn + image" where
  "Image_new m sz colour = (case sz of (w, h) \<Rightarrow>
     if w < 0 \<or> h < 0 then Inl ValueError
     else Inr \<lparr>mode = m, width = nat w, height = nat h, pixel = (\<lambda>i j. colour)\<rparr>)"

definition paste :: "image \<Rightarrow> image \<Rightarrow> int \<times> int \<Rightarrow> image" where
  "paste dst src pos = (case pos of (x, y) \<Rightarrow>
     dst\<lparr>pixel := (\<lambda>i j.
       if x \<le> int i \<and> int i < x + int (width src) \<and> y \<le> int j \<and> int j < y + int (height src)
       then pixel src (nat (int i - x)) (nat (int j - y))
       else pixel dst i j)\<rparr>)"

definition same_pixels :: "image \<Rightarrow> image \<Rightarrow> bool" where
  "same_pixels a b \<longleftrightarrow> width a = width b \<and> height a = height b \<and>
     (\<forall>i < width a. \<forall>j < height a. pixel a i j = pixel b i j)"

subsection \<open>Files and standard output\<close>

text \<open>
  A path is a string. \<^verbatim>\<open>os.path.join\<close> of a folder and a name is modelled as on POSIX
  systems: a name that starts with the separator replaces the folder, a folder that is empty
  or ends with the separator is not given a second one. Which file a path names is the
  file system's business: \<open>realpath\<close> gives the canonical path of a path, and the files
  are kept under their canonical paths, so that two spellings of one file (\<^verbatim>\<open>in/a.png\<close>
  and \<^verbatim>\<open>./in/a.png\<close>) are one file. A file either decodes to an image or does not.
  Saving as PNG is lossless, and a write is taken to succeed. What the scripts print is kept
  as a list of lines.
\<close>

datatype file_content = Image_file image | Other_file

type_synonym path = string

datatype line =
  Converted_image_size "nat \<times> nat"
  | Converting string
  | Successfully_converted string
  | Error_converting string exn

record world =
  realpath :: "path \<Rightarrow> path"
  files :: "path \<rightharpoonup> file_content"
  stdout :: "line list"

definition os_path_join :: "string \<Rightarrow> string \<Rightarrow> path" where
  "os_path_join folder filename =
     (if take 1 filename = ''/'' then filename
      else if folder = [] \<or> last folder = CHR ''/'' then folder @ filename
      else folder @ ''/'' @ filename)"

definition Image_open :: "world \<Rightarrow> path \<Rightarrow> exn + image" where
  "Image_open w p = (case files w (realpath w p) of
     None \<Rightarrow> Inl FileNotFoundError
   | Some Other_file \<Rightarrow> Inl UnidentifiedImageError
   | Some (Image_file img) \<Rightarrow> Inr img)"

definition Image_save :: "world \<Rightarrow> image \<Rightarrow> path \<Rightarrow> world" where
  "Image_save w img p = w\<lparr>files := (files w)(realpath w p \<mapsto> Image_file img)\<rparr>"

definition py_print :: "world \<Rightarrow> line \<Rightarrow> world" where
  "py_print w l = w\<lparr>stdout := stdout w @ [l]\<rparr>"

text \<open>
  Lines 12 and 13 of both scripts: an image of another mode is converted to RGB first.
\<close>

definition rgb_image :: "pil \<Rightarrow> image \<Rightarrow> image" where
  "rgb_image L img = (if mode img \<noteq> ''RGB'' then lib_convert_rgb L img else img)"

text \<open>
  The library keeps the two sides of an image in machine integers: \<open>dimension n\<close> says
  that \<open>n\<close> is a positive side of an image that can exist.
\<close>

definition dimension :: "int \<Rightarrow> bool" where
  "dimension n \<longleftrightarrow> 0 < n \<and> n < 2 ^ 31"

section \<open>The feature graphic converter\<close>

text \<open>Lines 22 to 24 of \<^verbatim>\<open>convert_feature_graphic\<close>: the scale and the scaled size.\<close>

definition feature_graphic_scale :: "int \<Rightarrow> int \<Rightarrow> int \<Rightarrow> int \<Rightarrow> exn + rat \<times> int \<times> int" where
  "feature_graphic_scale target_width target_height img_width img_height =
     bind_exn (int_truediv target_width img_width) (\<lambda>sx.
     bind_exn (int_truediv target_height img_height) (\<lambda>sy.
     let scale = min sx sy in
     bind_exn (int_mul_float img_width scale) (\<lambda>fw.
     let new_width = float_trunc fw in
     bind_exn (int_mul_float img_height scale) (\<lambda>fh.
     let new_height = float_trunc fh in
     Inr (scale, new_width, new_height)))))"

text \<open>Lines 30 and 31 (the same in both scripts): the position that centres the image.\<close>

definition center_position :: "int \<Rightarrow> int \<Rightarrow> int \<Rightarrow> int \<Rightarrow> int \<times> int" where
  "center_position target_width target_height new_width new_height =
     (let x = (target_width - new_width) div 2;
          y = (target_height - new_height) div 2
      in (x, y))"

text \<open>Lines 12 to 34: from the opened image to the canvas with the image pasted.\<close>

definition feature_graphic_image :: "pil \<Rightarrow> image \<Rightarrow> int \<Rightarrow> int \<Rightarrow> exn + image" where
  "feature_graphic_image L img0 target_width target_height =
     (let img = rgb_image L img0;
          img_width = int (width img);
          img_height = int (height img)
      in bind_exn (Image_new ''RGB'' (target_width, target_height) background) (\<lambda>new_img.
         bind_exn (feature_graphic_scale target_width target_height img_width img_height)
           (\<lambda>(scale, new_width, new_height).
         bind_exn (lib_resize L img (new_width, new_height)) (\<lambda>resized_img.
         Inr (paste new_img resized_img
               (center_position target_width target_height new_width new_height))))))"

definition convert_feature_graphic ::
  "pil \<Rightarrow> world \<Rightarrow> path \<Rightarrow> path \<Rightarrow> int \<Rightarrow> int \<Rightarrow> exn + world" where
  "convert_feature_graphic L w input_path output_path target_width target_height =
     bind_exn (Image_open w input_path) (\<lambda>img.
     bind_exn (feature_graphic_image L img target_width target_height) (\<lambda>new_img.
     Inr (py_print (Image_save w new_img output_path)
            (Converted_image_size (width new_img, height new_img)))))"

section \<open>The tablet screenshot converter\<close>

text \<open>Lines 22 to 24 of \<^verbatim>\<open>create_tablet_screenshot\<close>, with the literals 0.8 and 0.9.\<close>

definition tablet_screenshot_scale :: "int \<Rightarrow> int \<Rightarrow> int \<Rightarrow> int \<Rightarrow> exn + rat \<times> int \<times> int" where
  "tablet_screenshot_scale target_width target_height img_width img_height =
     bind_exn (int_mul_float target_width (float_lit (8 / 10))) (\<lambda>tx.
     bind_exn (float_div_int tx img_width) (\<lambda>sx.
     bind_exn (int_mul_float target_height (float_lit (9 / 10))) (\<lambda>ty.
     bind_exn (float_div_int ty img_height) (\<lambda>sy.
     let scale = min sx sy in
     bind_exn (int_mul_float img_width scale) (\<lambda>fw.
     let new_width = float_trunc fw in
     bind_exn (int_mul_float img_height scale) (\<lambda>fh.
     let new_height = float_trunc fh in
     Inr (scale, new_width, new_height)))))))"

definition tablet_screenshot_image :: "pil \<Rightarrow> image \<Rightarrow> int \<Rightarrow> int \<Rightarrow> exn + image" where
  "tablet_screenshot_image L img0 target_width target_height =
     (let img = rgb_image L img0;
          img_width = int (width img);
          img_height = int (height img)
      in bind_exn (Image_new ''RGB'' (target_width, target_height) background) (\<lambda>new_img.
         bind_exn (tablet_screenshot_scale target_width target_height img_width img_height)
           (\<lambda>(scale, new_width, new_height).
         bind_exn (lib_resize L img (new_width, new_height)) (\<lambda>resized_img.
         Inr (paste new_img resized_img
               (center_position target_width target_height new_width new_height))))))"

definition create_tablet_screenshot ::
  "pil \<Rightarrow> world \<Rightarrow> path \<Rightarrow> path \<Rightarrow> int \<Rightarrow> int \<Rightarrow> exn + world" where
  "create_tablet_screenshot L w input_path output_path target_width target_height =
     bind_exn (Image_open w input_path) (\<lambda>img.
     bind_exn (tablet_screenshot_image L img target_width target_height) (\<lambda>new_img.
     Inr (Image_save w new_img output_path)))"

subsection \<open>The batch runner\<close>









subsection \<open>A reference library\<close>

text \<open>
  A library to run the model on concrete images. Its resize refuses a side below 1, as the
  library's does (\<^verbatim>\<open>ValueError: height and width must be > 0\<close>), and samples the nearest
  pixel otherwise; its conversion to RGB keeps the first three bands.
\<close>

definition strict_resize :: "image \<Rightarrow> int \<times> int \<Rightarrow> exn + image" where
  "strict_resize img sz = (case sz of (w, h) \<Rightarrow>
     if w < 1 \<or> h < 1 then Inl ValueError
     else Inr \<lparr>mode = mode img, width = nat w, height = nat h,
               pixel = (\<lambda>i j. pixel img (i * width img div nat w) (j * height img div nat h))\<rparr>)"

definition drop_to_rgb :: "image \<Rightarrow> image" where
  "drop_to_rgb img = img\<lparr>mode := ''RGB'', pixel := (\<lambda>i j. take 3 (pixel img i j))\<rparr>"

definition strict_pil :: pil where
  "strict_pil = \<lparr>lib_convert_rgb = drop_to_rgb, lib_resize = strict_resize\<rparr>"

definition blank :: "nat \<Rightarrow> nat \<Rightarrow> image" where
  "blank w h = \<lparr>mode = ''RGB'', width = w, height = h, pixel = (\<lambda>i j. [0, 0, 0])\<rparr>"

text \<open>
  A world with the listed files and nothing printed yet, on a file system where every path
  used is canonical.
\<close>

definition world_with :: "(path \<times> file_content) list \<Rightarrow> world" where
  "world_with entries = \<lparr>realpath = (\<lambda>p. p), files = map_of entries, stdout = []\<rparr>"

section \<open>The fitter as the specification words it\<close>

text \<open>
  The specification's \<^verbatim>\<open>fitToCanvas\<close> takes the two fill fractions as parameters:
  \<^verbatim>\<open>scale = min(targetWidth * fillX / srcWidth, targetHeight * fillY / srcHeight)\<close>,
  then the integer-truncated scaled dimensions. \<open>fit_to_canvas_scale\<close> is that sentence
  in Python's arithmetic, for comparison with the two scripts.
\<close>

definition fit_to_canvas_scale ::
  "rat \<Rightarrow> rat \<Rightarrow> int \<Rightarrow> int \<Rightarrow> int \<Rightarrow> int \<Rightarrow> exn + rat \<times> int \<times> int" where
  "fit_to_canvas_scale fill_x fill_y target_width target_height src_width src_height =
     bind_exn (int_mul_float target_width fill_x) (\<lambda>tx.
     bind_exn (float_div_int tx src_width) (\<lambda>sx.
     bind_exn (int_mul_float target_height fill_y) (\<lambda>ty.
     bind_exn (float_div_int ty src_height) (\<lambda>sy.
     let scale = min sx sy in
     bind_exn (int_mul_float src_width scale) (\<lambda>fw.
     bind_exn (int_mul_float src_height scale) (\<lambda>fh.
     Inr (scale, float_trunc fw, float_trunc fh)))))))"

section \<open>Properties of the rounding\<close>

lemma floorlog2_pos: "0 < n \<Longrightarrow> 0 < floorlog 2 n"
  by (simp add: floorlog_def)

lemma floorlog2_lower: "0 < n \<Longrightarrow> 2 ^ (floorlog 2 n - 1) \<le> n"
  using floorlog_bounds [of n 2] by simp

lemma floorlog2_upper: "0 < n \<Longrightarrow> n < 2 ^ floorlog 2 n"
  using floorlog_bounds [of n 2] by simp

lemma powi_nat_diff: "2 powi (int a - int b) = (2::rat) ^ a / 2 ^ b"
  by (simp add: power_int_diff)

lemma ilog2_bounds:
  assumes "0 < x"
  shows "2 powi (ilog2 x) \<le> x \<and> x < 2 powi (ilog2 x + 1)"
proof -
  obtain p q where pq: "quotient_of x = (p, q)"
    by (cases "quotient_of x")
  have q: "0 < q" using pq quotient_of_denom_pos by blast
  have x: "x = of_int p / of_int q" using pq quotient_of_div by blast
  have p: "0 < p" using assms q x by (simp add: zero_less_divide_iff)
  define fp where "fp = floorlog 2 (nat p)"
  define fq where "fq = floorlog 2 (nat q)"
  define d where "d = int fp - int fq"
  have fp: "0 < fp" and fq: "0 < fq"
    using p q by (simp_all add: fp_def fq_def floorlog2_pos)
  have pn: "of_int p = (of_nat (nat p) :: rat)" and qn: "of_int q = (of_nat (nat q) :: rat)"
    using p q by simp_all
  have pl: "(2::rat) ^ (fp - 1) \<le> of_int p"
    unfolding pn fp_def using floorlog2_lower [of "nat p"] p
    by (metis of_nat_le_iff of_nat_numeral of_nat_power zero_less_nat_eq)
  have pu: "of_int p < (2::rat) ^ fp"
    unfolding pn fp_def using floorlog2_upper [of "nat p"] p
    by (metis of_nat_less_iff of_nat_numeral of_nat_power zero_less_nat_eq)
  have ql: "(2::rat) ^ (fq - 1) \<le> of_int q"
    unfolding qn fq_def using floorlog2_lower [of "nat q"] q
    by (metis of_nat_le_iff of_nat_numeral of_nat_power zero_less_nat_eq)
  have qu: "of_int q < (2::rat) ^ fq"
    unfolding qn fq_def using floorlog2_upper [of "nat q"] q
    by (metis of_nat_less_iff of_nat_numeral of_nat_power zero_less_nat_eq)
  have qpos: "(0::rat) < of_int q" using q by simp
  have lo: "2 powi (d - 1) < x"
  proof -
    have "2 powi (d - 1) = (2::rat) ^ (fp - 1) / 2 ^ fq"
    proof -
      have "d - 1 = int (fp - 1) - int fq" using fp by (simp add: d_def)
      then show ?thesis by (simp only: powi_nat_diff)
    qed
    also have "\<dots> \<le> of_int p / 2 ^ fq"
      using pl by (simp add: divide_right_mono)
    also have "\<dots> < of_int p / of_int q"
      by (rule divide_strict_left_mono) (use qu qpos p in simp_all)
    finally show ?thesis using x by simp
  qed
  have hi: "x < 2 powi (d + 1)"
  proof -
    have "x < 2 ^ fp / of_int q"
      using pu qpos x by (simp add: divide_strict_right_mono)
    also have "\<dots> \<le> 2 ^ fp / 2 ^ (fq - 1)"
      by (rule frac_le) (use ql in simp_all)
    also have "\<dots> = 2 powi (d + 1)"
    proof -
      have "d + 1 = int fp - int (fq - 1)" using fq by (simp add: d_def)
      then show ?thesis by (simp only: powi_nat_diff)
    qed
    finally show ?thesis .
  qed
  have e: "ilog2 x = (if 2 powi d \<le> x then d else d - 1)"
    by (simp add: ilog2_def pq fp_def fq_def d_def Let_def)
  show ?thesis
    using lo hi by (auto simp: e)
qed

lemma round_half_even_err: "\<bar>of_int (round_half_even y) - y\<bar> \<le> 1 / 2"
proof -
  have "of_int \<lfloor>y\<rfloor> \<le> y" "y < of_int \<lfloor>y\<rfloor> + 1"
    by linarith+
  then show ?thesis
    by (auto simp: round_half_even_def Let_def)
qed

lemma round_half_even_of_int: "round_half_even (of_int m) = m"
  by (simp add: round_half_even_def)

lemma rnd53_abs_err:
  "\<bar>rnd53 x - x\<bar> \<le> 2 powi (max (ilog2 \<bar>x\<bar> - 52) (- 1074)) / 2"
proof (cases "x = 0")
  case True
  then show ?thesis by (simp add: rnd53_def)
next
  case False
  define q :: rat where "q = 2 powi (max (ilog2 \<bar>x\<bar> - 52) (- 1074))"
  have q: "0 < q" by (simp add: q_def)
  define m where "m = round_half_even (\<bar>x\<bar> / q)"
  have r: "rnd53 x = sgn x * of_int m * q"
    using False by (simp add: rnd53_def q_def m_def Let_def)
  have "\<bar>rnd53 x - x\<bar> = \<bar>sgn x * (of_int m * q - \<bar>x\<bar>)\<bar>"
    by (simp add: r algebra_simps flip: mult_sgn_abs) (metis mult.commute mult_sgn_abs)
  also have "\<dots> = \<bar>of_int m * q - \<bar>x\<bar>\<bar>"
    using False by (simp add: abs_mult abs_sgn_eq)
  also have "\<dots> = \<bar>of_int m - \<bar>x\<bar> / q\<bar> * q"
    using q by (simp add: abs_mult field_simps flip: abs_mult_pos)
  also have "\<dots> \<le> (1 / 2) * q"
    using round_half_even_err [of "\<bar>x\<bar> / q"] q unfolding m_def
    by (intro mult_right_mono) simp_all
  finally show ?thesis by (simp add: q_def)
qed

lemma rnd53_rel_err:
  assumes "2 powi (- 1022) \<le> \<bar>x\<bar>"
  shows "\<bar>rnd53 x - x\<bar> \<le> \<bar>x\<bar> / 2 ^ 53"
proof -
  have pos: "0 < \<bar>x\<bar>"
  proof -
    have "(0::rat) < 2 powi (- 1022)" by simp
    then show ?thesis using assms by (rule less_le_trans)
  qed
  define e where "e = ilog2 \<bar>x\<bar>"
  have lo: "2 powi e \<le> \<bar>x\<bar>"
    using ilog2_bounds [OF pos] by (simp add: e_def)
  have "2 powi (max (e - 52) (- 1074)) / 2 \<le> \<bar>x\<bar> / 2 ^ 53"
  proof (cases "- 1074 \<le> e - 52")
    case True
    then have "max (e - 52) (- 1074) = e - 52" by simp
    moreover have "2 powi (e - 52) = (2 powi e / 2 powi 52 :: rat)"
      by (rule power_int_diff) simp
    ultimately have "2 powi (max (e - 52) (- 1074)) / 2 = (2 powi e / 2 ^ 53 :: rat)"
      by simp
    also have "\<dots> \<le> \<bar>x\<bar> / 2 ^ 53"
      using lo by (simp add: divide_right_mono)
    finally show ?thesis .
  next
    case False
    then have "max (e - 52) (- 1074) = - 1022 - 52" by simp
    moreover have "2 powi (- 1022 - 52) = (2 powi (- 1022) / 2 powi 52 :: rat)"
      by (rule power_int_diff) simp
    ultimately have "2 powi (max (e - 52) (- 1074)) / 2 = (2 powi (- 1022) / 2 ^ 53 :: rat)"
      by simp
    also have "\<dots> \<le> \<bar>x\<bar> / 2 ^ 53"
      using assms by (simp add: divide_right_mono)
    finally show ?thesis .
  qed
  then show ?thesis
    using rnd53_abs_err [of x] by (simp add: e_def)
qed

lemma rnd53_of_int:
  assumes "\<bar>n\<bar> < 2 ^ 53"
  shows "rnd53 (of_int n) = of_int n"
proof (cases "n = 0")
  case True
  then show ?thesis by (simp add: rnd53_def)
next
  case False
  define a :: rat where "a = \<bar>of_int n\<bar>"
  have a: "0 < a" "a < 2 ^ 53" "a = of_int \<bar>n\<bar>"
    using False assms by (simp_all add: a_def) 
  define k where "k = max (ilog2 a - 52) (- 1074)"
  have "2 powi (ilog2 a) < (2::rat) powi 53"
    using ilog2_bounds [OF a(1)] a(2) by simp
  then have "ilog2 a < 53"
    by (rule power_int_le_imp_less_exp [rotated]) simp_all
  then have k: "k \<le> 0" by (simp add: k_def)
  have "a / 2 powi k = of_int (\<bar>n\<bar> * 2 ^ nat (- k))"
    using k by (simp add: a(3) power_int_def field_simps)
  then have "round_half_even (a / 2 powi k) = \<bar>n\<bar> * 2 ^ nat (- k)"
    by (simp only: round_half_even_of_int)
  then have "rnd53 (of_int n) = sgn (of_int n) * of_int (\<bar>n\<bar> * 2 ^ nat (- k)) * 2 powi k"
    using False by (simp add: rnd53_def Let_def a_def k_def)
  also have "\<dots> = sgn (of_int n) * of_int \<bar>n\<bar>"
    using k by (simp add: power_int_def field_simps)
  also have "\<dots> = of_int n"
    by (metis of_int_abs mult_sgn_abs)
  finally show ?thesis .
qed


lemma rnd53_magnitude: "\<bar>rnd53 x\<bar> \<le> 2 * \<bar>x\<bar> + 1"
proof (cases "x = 0")
  case True
  then show ?thesis by (simp add: rnd53_def)
next
  case False
  then have pos: "0 < \<bar>x\<bar>" by simp
  define e where "e = ilog2 \<bar>x\<bar>"
  have lo: "2 powi e \<le> \<bar>x\<bar>"
    using ilog2_bounds [OF pos] by (simp add: e_def)
  have "2 powi (e - 52) = (2 powi e / 2 powi 52 :: rat)"
    by (rule power_int_diff) simp
  also have "\<dots> \<le> 2 powi e"
    by (simp add: field_simps)
  finally have a: "(2 powi (e - 52) :: rat) \<le> \<bar>x\<bar>"
    using lo by simp
  have b: "(2 powi (- 1074) :: rat) \<le> 1"
    using power_int_increasing [of "- 1074" 0 "2::rat"] by simp
  have "(2 powi (max (e - 52) (- 1074)) :: rat) \<le> \<bar>x\<bar> + 1"
    using a b pos by (simp add: max_def)
  moreover have "\<bar>rnd53 x - x\<bar> \<le> 2 powi (max (e - 52) (- 1074)) / 2"
    using rnd53_abs_err [of x] by (simp only: e_def)
  moreover have "(0::rat) < 2 powi (max (e - 52) (- 1074))"
    by simp
  ultimately have "\<bar>rnd53 x - x\<bar> \<le> \<bar>x\<bar> + 1"
    by linarith
  then show ?thesis by linarith
qed

lemma finite_double_small:
  assumes "\<bar>x\<bar> \<le> 2 ^ 100"
  shows "finite_double (rnd53 x) = Inr (rnd53 x)"
proof -
  have "\<bar>rnd53 x\<bar> \<le> 2 * 2 ^ 100 + 1"
    using rnd53_magnitude [of x] assms by linarith
  also have "\<dots> < (2::rat) ^ 102" by simp
  also have "\<dots> \<le> 2 ^ 1024" by (rule power_increasing) simp_all
  finally show ?thesis by (simp add: finite_double_def)
qed

lemma ilog2_unique:
  assumes "2 powi e \<le> x" "x < 2 powi (e + 1)"
  shows "ilog2 x = e"
proof -
  have pos: "0 < x"
    using assms(1) by (rule less_le_trans [rotated]) simp
  note b = ilog2_bounds [OF pos]
  have "\<not> ilog2 x < e"
  proof
    assume "ilog2 x < e"
    then have "(2::rat) powi (ilog2 x + 1) \<le> 2 powi e"
      by (intro power_int_increasing) simp_all
    then show False using b assms by linarith
  qed
  moreover have "\<not> e < ilog2 x"
  proof
    assume "e < ilog2 x"
    then have "(2::rat) powi (e + 1) \<le> 2 powi (ilog2 x)"
      by (intro power_int_increasing) simp_all
    then show False using b assms by linarith
  qed
  ultimately show ?thesis by simp
qed

lemma round_half_even_unique:
  assumes "\<bar>y - of_int m\<bar> < 1 / 2"
  shows "round_half_even y = m"
proof -
  have "\<bar>of_int (round_half_even y) - y\<bar> \<le> 1 / 2"
    by (rule round_half_even_err)
  then have "\<bar>(of_int (round_half_even y) :: rat) - of_int m\<bar> < 1"
    using assms by linarith
  then have "\<bar>round_half_even y - m\<bar> < 1"
    by (metis of_int_abs of_int_diff of_int_less_1_iff)
  then show ?thesis by simp
qed

lemma rnd53_eqI:
  assumes "2 ^ 52 \<le> x / 2 powi k" "x / 2 powi k < 2 ^ 53" "- 1074 \<le> k"
    and "\<bar>x / 2 powi k - of_int m\<bar> < 1 / 2"
  shows "rnd53 x = of_int m * 2 powi k"
proof -
  have q: "(0::rat) < 2 powi k" by simp
  have "(2::rat) powi (k + 52) = 2 powi k * 2 ^ 52"
    by (simp add: power_int_add)
  then have lo: "2 powi (k + 52) \<le> x"
    using assms(1) q by (simp add: field_simps)
  have "(2::rat) powi (k + 52 + 1) = 2 powi k * 2 ^ 53"
    by (simp add: power_int_add)
  then have hi: "x < 2 powi (k + 52 + 1)"
    using assms(2) q by (simp add: field_simps)
  have pos: "0 < x"
    using lo by (rule less_le_trans [rotated]) simp
  have ax: "\<bar>x\<bar> = x" using pos by simp
  have "ilog2 x = k + 52"
    using lo hi by (intro ilog2_unique) simp_all
  then have mx: "max (ilog2 x - 52) (- 1074) = k"
    using assms(3) by simp
  have m: "round_half_even (x / 2 powi k) = m"
    using assms(4) by (intro round_half_even_unique) simp
  have "rnd53 x = sgn x * of_int m * 2 powi k"
    unfolding rnd53_def Let_def ax mx m using pos by simp
  then show ?thesis using pos by simp
qed

lemma rnd53_exact:
  assumes "\<bar>m\<bar> < 2 ^ 53" "- 1074 \<le> k"
  shows "rnd53 (of_int m * 2 powi k) = of_int m * 2 powi k"
proof (cases "m = 0")
  case True
  then show ?thesis by (simp add: rnd53_def)
next
  case False
  define x :: rat where "x = of_int m * 2 powi k"
  define a :: rat where "a = \<bar>x\<bar>"
  have a: "a = of_int \<bar>m\<bar> * 2 powi k"
    by (simp add: a_def x_def abs_mult)
  have apos: "0 < a" using False by (simp add: a)
  have "(of_int \<bar>m\<bar> :: rat) < 2 ^ 53"
    using assms(1) by (metis of_int_less_iff of_int_numeral of_int_power)
  then have "a < 2 ^ 53 * 2 powi k"
    by (simp add: a)
  also have "\<dots> = 2 powi (k + 53)"
    by (simp add: power_int_add)
  finally have "2 powi (ilog2 a) < (2::rat) powi (k + 53)"
    using ilog2_bounds [OF apos] by simp
  then have "ilog2 a < k + 53"
    by (metis power_int_increasing linorder_not_le one_le_numeral)
  define j where "j = max (ilog2 a - 52) (- 1074)"
  have j: "j \<le> k" using \<open>ilog2 a < k + 53\<close> assms(2) by (simp add: j_def)
  have pw: "(2::rat) powi k = 2 ^ nat (k - j) * 2 powi j"
  proof -
    have "(2::rat) powi k = 2 powi (k - j) * 2 powi j"
      by (simp flip: power_int_add)
    then show ?thesis using j by (simp add: power_int_def)
  qed
  have "a / 2 powi j = of_int (\<bar>m\<bar> * 2 ^ nat (k - j))"
    by (simp add: a pw)
  then have "round_half_even (a / 2 powi j) = \<bar>m\<bar> * 2 ^ nat (k - j)"
    by (simp only: round_half_even_of_int)
  moreover have "x \<noteq> 0" using False by (simp add: x_def)
  ultimately have "rnd53 x = sgn x * of_int (\<bar>m\<bar> * 2 ^ nat (k - j)) * 2 powi j"
    unfolding rnd53_def Let_def a_def [symmetric] j_def [symmetric] by simp
  also have "\<dots> = sgn x * a"
    by (simp add: a pw)
  also have "\<dots> = x"
    by (simp add: a_def mult_sgn_abs)
  finally show ?thesis by (simp add: x_def)
qed

lemma float_trunc_eqI:
  assumes "0 \<le> n" "of_int n \<le> x" "x < of_int n + 1"
  shows "float_trunc x = n"
proof -
  have "0 \<le> x" using assms(1,2) by (meson of_int_0_le_iff order_trans)
  moreover have "\<lfloor>x\<rfloor> = n" using assms(2,3) by (intro floor_unique)
  ultimately show ?thesis by (simp add: float_trunc_def)
qed

section \<open>Python operations inside the range of the floats\<close>

lemma bind_exn_Inr [simp]: "bind_exn (Inr v) f = f v"
  by (simp add: bind_exn_def)

lemma bind_exn_Inl [simp]: "bind_exn (Inl e) f = Inl e"
  by (simp add: bind_exn_def)

lemma float_of_int_exact:
  assumes "\<bar>n\<bar> < 2 ^ 53"
  shows "float_of_int n = Inr (of_int n)"
proof -
  have "\<bar>of_int n :: rat\<bar> < 2 ^ 53"
    using assms by (metis of_int_abs of_int_less_iff of_int_numeral of_int_power)
  also have "\<dots> \<le> (2::rat) ^ 64"
    by (rule power_increasing) simp_all
  finally have "finite_double (rnd53 (of_int n)) = Inr (rnd53 (of_int n))"
    by (intro finite_double_small) simp
  then show ?thesis
    by (simp add: float_of_int_def rnd53_of_int [OF assms])
qed

lemma int_truediv_eq:
  "b \<noteq> 0 \<Longrightarrow> \<bar>of_int a / of_int b :: rat\<bar> \<le> 2 ^ 100 \<Longrightarrow>
   int_truediv a b = Inr (rnd53 (of_int a / of_int b))"
  by (simp add: int_truediv_def finite_double_small)

lemma int_mul_float_eq:
  "\<bar>n\<bar> < 2 ^ 53 \<Longrightarrow> \<bar>of_int n * y\<bar> \<le> 2 ^ 100 \<Longrightarrow>
   int_mul_float n y = Inr (rnd53 (of_int n * y))"
  by (simp add: int_mul_float_def float_of_int_exact float_mul_def finite_double_small)

lemma float_div_int_eq:
  "n \<noteq> 0 \<Longrightarrow> \<bar>n\<bar> < 2 ^ 53 \<Longrightarrow> \<bar>x / of_int n\<bar> \<le> 2 ^ 100 \<Longrightarrow>
   float_div_int x n = Inr (rnd53 (x / of_int n))"
  by (simp add: float_div_int_def float_of_int_exact float_truediv_def finite_double_small)

lemma round_half_even_nonneg: "0 \<le> y \<Longrightarrow> 0 \<le> round_half_even y"
  by (auto simp: round_half_even_def Let_def)

lemma rnd53_nonneg: "0 \<le> x \<Longrightarrow> 0 \<le> rnd53 x"
  by (simp add: rnd53_def Let_def round_half_even_nonneg)

lemma rnd53_le: "0 \<le> x \<Longrightarrow> x \<le> c \<Longrightarrow> rnd53 x \<le> 2 * c + 1"
  using rnd53_magnitude [of x] by linarith

lemma dimension_rat:
  assumes "dimension n"
  shows "(1::rat) \<le> of_int n" and "(of_int n :: rat) < 2 ^ 31" and "\<bar>n\<bar> < 2 ^ 53"
    and "n \<noteq> 0"
proof -
  have n: "0 < n" "n < 2 ^ 31" using assms by (simp_all add: dimension_def)
  show "(1::rat) \<le> of_int n" using n by (simp add: of_int_le_iff [of 1 n, simplified])
  show "(of_int n :: rat) < 2 ^ 31"
    using n(2) by (metis of_int_less_iff of_int_numeral of_int_power)
  have "(2::int) ^ 31 \<le> 2 ^ 53" by (rule power_increasing) simp_all
  then show "\<bar>n\<bar> < 2 ^ 53" using n by linarith
  show "n \<noteq> 0" using n by simp
qed

lemma dimensionD: "dimension n \<Longrightarrow> 0 \<le> n" "dimension n \<Longrightarrow> n < 2 ^ 31"
  by (simp_all add: dimension_def)

lemma target_rat:
  assumes "0 \<le> n" "n < 2 ^ 31"
  shows "(0::rat) \<le> of_int n" and "(of_int n :: rat) < 2 ^ 31" and "\<bar>n\<bar> < 2 ^ 53"
proof -
  show "(0::rat) \<le> of_int n" using assms(1) by simp
  show "(of_int n :: rat) < 2 ^ 31"
    using assms(2) by (metis of_int_less_iff of_int_numeral of_int_power)
  have "(2::int) ^ 31 \<le> 2 ^ 53" by (rule power_increasing) simp_all
  then show "\<bar>n\<bar> < 2 ^ 53" using assms by linarith
qed

lemma int_mul_float_in_range:
  assumes "0 \<le> n" "n < 2 ^ 31" "0 \<le> y" "y \<le> 2 ^ 40"
  shows "int_mul_float n y = Inr (rnd53 (of_int n * y))"
proof -
  note n = target_rat [OF assms(1,2)]
  have "of_int n * y \<le> 2 ^ 31 * 2 ^ 40"
    using n assms(3,4) by (intro mult_mono) simp_all
  also have "\<dots> = (2::rat) ^ 71" by simp
  also have "\<dots> \<le> 2 ^ 100" by (rule power_increasing) simp_all
  finally have "\<bar>of_int n * y\<bar> \<le> 2 ^ 100"
    using n assms(3) by (simp add: abs_mult)
  then show ?thesis
    using n(3) by (rule int_mul_float_eq [rotated])
qed

lemma float_div_int_in_range:
  assumes "dimension n" "0 \<le> x" "x \<le> 2 ^ 40"
  shows "float_div_int x n = Inr (rnd53 (x / of_int n))"
proof -
  note n = dimension_rat [OF assms(1)]
  have "x / of_int n \<le> x / 1"
    using n assms(2) by (intro divide_left_mono) simp_all
  then have "\<bar>x / of_int n\<bar> \<le> 2 ^ 100"
    using n assms(2,3) by (simp add: abs_mult)
  then show ?thesis
    using n(4,3) by (intro float_div_int_eq)
qed

lemma int_truediv_in_range:
  assumes "0 \<le> a" "a < 2 ^ 31" "dimension b"
  shows "int_truediv a b = Inr (rnd53 (of_int a / of_int b))"
    and "0 \<le> rnd53 (of_int a / of_int b :: rat)"
    and "rnd53 (of_int a / of_int b :: rat) \<le> 2 ^ 33"
proof -
  note a = target_rat [OF assms(1,2)] and b = dimension_rat [OF assms(3)]
  have q: "(0::rat) \<le> of_int a / of_int b" using a b by simp
  have "(of_int a / of_int b :: rat) \<le> of_int a / 1"
    using a b by (intro divide_left_mono) simp_all
  then have q': "(of_int a / of_int b :: rat) \<le> 2 ^ 31" using a by simp
  then have "\<bar>of_int a / of_int b :: rat\<bar> \<le> 2 ^ 100" using q by simp
  then show "int_truediv a b = Inr (rnd53 (of_int a / of_int b))"
    using b(4) by (intro int_truediv_eq)
  show "0 \<le> rnd53 (of_int a / of_int b :: rat)" using q by (rule rnd53_nonneg)
  show "rnd53 (of_int a / of_int b :: rat) \<le> 2 ^ 33"
    using rnd53_le [OF q q'] by simp
qed

lemma float_trunc_nonneg: "0 \<le> x \<Longrightarrow> float_trunc x = \<lfloor>x\<rfloor>"
  by (simp add: float_trunc_def)

lemma feature_graphic_scale_nonneg:
  assumes "0 \<le> tw" "tw < 2 ^ 31" "0 \<le> th" "th < 2 ^ 31" "dimension w" "dimension h"
  shows "feature_graphic_scale tw th w h =
    (let s = min (rnd53 (of_int tw / of_int w)) (rnd53 (of_int th / of_int h))
     in Inr (s, \<lfloor>rnd53 (of_int w * s)\<rfloor>, \<lfloor>rnd53 (of_int h * s)\<rfloor>))"
proof -
  define s where "s = min (rnd53 (of_int tw / of_int w :: rat)) (rnd53 (of_int th / of_int h))"
  note x = int_truediv_in_range [OF assms(1,2,5)] and y = int_truediv_in_range [OF assms(3,4,6)]
  have s: "0 \<le> s" "s \<le> 2 ^ 40"
    using x(2,3) y(2,3) by (simp_all add: s_def min_def)
  note w = dimension_rat [OF assms(5)] and h = dimension_rat [OF assms(6)]
  have fw: "int_mul_float w s = Inr (rnd53 (of_int w * s))"
    and fh: "int_mul_float h s = Inr (rnd53 (of_int h * s))"
    using int_mul_float_in_range [OF dimensionD(1) [OF assms(5)] dimensionD(2) [OF assms(5)] s]
      int_mul_float_in_range [OF dimensionD(1) [OF assms(6)] dimensionD(2) [OF assms(6)] s]
    by simp_all
  have "0 \<le> rnd53 (of_int w * s)" "0 \<le> rnd53 (of_int h * s)"
    using w h s by (simp_all add: rnd53_nonneg)
  then show ?thesis
    unfolding feature_graphic_scale_def x(1) y(1) bind_exn_Inr s_def [symmetric] Let_def fw fh
    by (simp add: float_trunc_nonneg)
qed

lemma feature_graphic_scale_in_range:
  assumes "dimension tw" "dimension th" "dimension w" "dimension h"
  shows "feature_graphic_scale tw th w h =
    (let s = min (rnd53 (of_int tw / of_int w)) (rnd53 (of_int th / of_int h))
     in Inr (s, \<lfloor>rnd53 (of_int w * s)\<rfloor>, \<lfloor>rnd53 (of_int h * s)\<rfloor>))"
  using assms by (intro feature_graphic_scale_nonneg dimensionD)

section \<open>The worked examples\<close>

lemma feature_example_scale:
  "feature_graphic_scale 1024 500 2000 1000 = Inr (1 / 2, 1000, 500)"
proof -
  have r1: "rnd53 (1024 / 2000) = 1152921504606847 / 2251799813685248"
    using rnd53_eqI [of "1024 / 2000" "- 53" 4611686018427388] by simp
  have r2: "rnd53 (500 / 1000) = 1 / 2"
    using rnd53_eqI [of "500 / 1000" "- 53" 4503599627370496] by simp
  have r3: "rnd53 (2000 * (1 / 2)) = 1000"
    using rnd53_exact [of 1000 0] by simp
  have r4: "rnd53 (1000 * (1 / 2)) = 500"
    using rnd53_exact [of 500 0] by simp
  have sx: "int_truediv 1024 2000 = Inr (1152921504606847 / 2251799813685248)"
    using r1 by (subst int_truediv_eq) simp_all
  have sy: "int_truediv 500 1000 = Inr (1 / 2)"
    using r2 by (subst int_truediv_eq) simp_all
  have fw: "int_mul_float 2000 (1 / 2) = Inr 1000"
    using r3 by (subst int_mul_float_eq) simp_all
  have fh: "int_mul_float 1000 (1 / 2) = Inr 500"
    using r4 by (subst int_mul_float_eq) simp_all
  show ?thesis
    by (simp add: feature_graphic_scale_def sx sy fw fh float_trunc_def)
qed

lemma float_lit_08: "float_lit (8 / 10) = 3602879701896397 / 4503599627370496"
  unfolding float_lit_def
  using rnd53_eqI [of "8 / 10" "- 53" 7205759403792794] by simp

lemma float_lit_09: "float_lit (9 / 10) = 8106479329266893 / 9007199254740992"
  unfolding float_lit_def
  using rnd53_eqI [of "9 / 10" "- 53" 8106479329266893] by simp

lemma tablet_example_scale:
  "tablet_screenshot_scale 1920 1080 1080 2400 =
     Inr (1823957849085051 / 4503599627370496, 437, 972)"
proof -
  have r1: "rnd53 (1920 * (3602879701896397 / 4503599627370496)) = 1536"
    using rnd53_eqI [of "1920 * (3602879701896397 / 4503599627370496)" "- 42" 6755399441055744]
    by simp
  have r2: "rnd53 (1536 / 1080) = 6405119470038039 / 4503599627370496"
    using rnd53_eqI [of "1536 / 1080" "- 52" 6405119470038039] by simp
  have r3: "rnd53 (1080 * (8106479329266893 / 9007199254740992)) = 972"
    using rnd53_eqI [of "1080 * (8106479329266893 / 9007199254740992)" "- 43" 8549802417586176]
    by simp
  have r4: "rnd53 (972 / 2400) = 1823957849085051 / 4503599627370496"
    using rnd53_eqI [of "972 / 2400" "- 54" 7295831396340204] by simp
  have r5: "rnd53 (1080 * (1823957849085051 / 4503599627370496)) =
      7694822175827559 / 17592186044416"
    using rnd53_eqI [of "1080 * (1823957849085051 / 4503599627370496)" "- 44" 7694822175827559]
    by simp
  have r6: "rnd53 (2400 * (1823957849085051 / 4503599627370496)) =
      8549802417586177 / 8796093022208"
    using rnd53_eqI [of "2400 * (1823957849085051 / 4503599627370496)" "- 43" 8549802417586177]
    by simp
  have tx: "int_mul_float 1920 (float_lit (8 / 10)) = Inr 1536"
    unfolding float_lit_08 using r1 by (subst int_mul_float_eq) simp_all
  have sx: "float_div_int 1536 1080 = Inr (6405119470038039 / 4503599627370496)"
    using r2 by (subst float_div_int_eq) simp_all
  have ty: "int_mul_float 1080 (float_lit (9 / 10)) = Inr 972"
    unfolding float_lit_09 using r3 by (subst int_mul_float_eq) simp_all
  have sy: "float_div_int 972 2400 = Inr (1823957849085051 / 4503599627370496)"
    using r4 by (subst float_div_int_eq) simp_all
  have fw: "int_mul_float 1080 (1823957849085051 / 4503599627370496) =
      Inr (7694822175827559 / 17592186044416)"
    using r5 by (subst int_mul_float_eq) simp_all
  have fh: "int_mul_float 2400 (1823957849085051 / 4503599627370496) =
      Inr (8549802417586177 / 8796093022208)"
    using r6 by (subst int_mul_float_eq) simp_all
  have t1: "float_trunc (7694822175827559 / 17592186044416) = 437"
    by (rule float_trunc_eqI) simp_all
  have t2: "float_trunc (8549802417586177 / 8796093022208) = 972"
    by (rule float_trunc_eqI) simp_all
  show ?thesis
    unfolding tablet_screenshot_scale_def tx ty sx sy bind_exn_Inr
    by (simp add: fw fh t1 t2)
qed

text \<open>
  Claim C8. On the two worked examples of the specification the code computes the stated
  values. Source 2000 x 1000 into 1024 x 500 (feature graphic): scale 0.5, scaled size
  1000 x 500, position (12, 0). Source 1080 x 2400 into 1920 x 1080 (tablet): the scale is
  the float that Python writes 0.405, which is also the rounded quotient 972 / 2400; the
  scaled size is 437 x 972 and the position (741, 54).
\<close>

theorem worked_examples:
  "feature_graphic_scale 1024 500 2000 1000 = Inr (1 / 2, 1000, 500)
   \<and> center_position 1024 500 1000 500 = (12, 0)
   \<and> tablet_screenshot_scale 1920 1080 1080 2400 = Inr (float_lit (405 / 1000), 437, 972)
   \<and> float_lit (405 / 1000) = rnd53 (972 / 2400)
   \<and> center_position 1920 1080 437 972 = (741, 54)"
proof -
  have "float_lit (405 / 1000) = 1823957849085051 / 4503599627370496"
    unfolding float_lit_def
    using rnd53_eqI [of "405 / 1000" "- 54" 7295831396340204] by simp
  moreover have "rnd53 (972 / 2400) = 1823957849085051 / 4503599627370496"
    using rnd53_eqI [of "972 / 2400" "- 54" 7295831396340204] by simp
  ultimately show ?thesis
    unfolding tablet_example_scale feature_example_scale
    by (simp add: center_position_def)
qed

section \<open>The scale inside the range of image sizes\<close>

lemma float_lit_08_range: "0 \<le> float_lit (8 / 10)" "float_lit (8 / 10) \<le> 1"
  unfolding float_lit_08 by simp_all

lemma float_lit_09_range: "0 \<le> float_lit (9 / 10)" "float_lit (9 / 10) \<le> 1"
  unfolding float_lit_09 by simp_all

lemma tablet_side_in_range:
  assumes "0 \<le> t" "t < 2 ^ 31" "dimension n" "0 \<le> d" "d \<le> 1"
  shows "int_mul_float t d = Inr (rnd53 (of_int t * d))"
    and "float_div_int (rnd53 (of_int t * d)) n = Inr (rnd53 (rnd53 (of_int t * d) / of_int n))"
    and "0 \<le> rnd53 (rnd53 (of_int t * d) / of_int n)"
    and "rnd53 (rnd53 (of_int t * d) / of_int n) \<le> 2 ^ 40"
proof -
  note t = target_rat [OF assms(1,2)] and n = dimension_rat [OF assms(3)]
  show "int_mul_float t d = Inr (rnd53 (of_int t * d))"
    using assms by (intro int_mul_float_in_range) simp_all
  have p: "0 \<le> of_int t * d" using t assms(4) by simp
  have "of_int t * d \<le> 2 ^ 31 * 1"
    using t assms(4,5) by (intro mult_mono) simp_all
  then have p': "of_int t * d \<le> 2 ^ 31" by simp
  have T: "0 \<le> rnd53 (of_int t * d)" "rnd53 (of_int t * d) \<le> 2 ^ 33"
    using rnd53_nonneg [OF p] rnd53_le [OF p p'] by simp_all
  then show "float_div_int (rnd53 (of_int t * d)) n =
      Inr (rnd53 (rnd53 (of_int t * d) / of_int n))"
    using assms(3) by (intro float_div_int_in_range) simp_all
  have q: "0 \<le> rnd53 (of_int t * d) / of_int n" using T n by simp
  have "rnd53 (of_int t * d) / of_int n \<le> rnd53 (of_int t * d) / 1"
    using n T by (intro divide_left_mono) simp_all
  then have q': "rnd53 (of_int t * d) / of_int n \<le> 2 ^ 33" using T by simp
  show "0 \<le> rnd53 (rnd53 (of_int t * d) / of_int n)" using q by (rule rnd53_nonneg)
  show "rnd53 (rnd53 (of_int t * d) / of_int n) \<le> 2 ^ 40"
    using rnd53_le [OF q q'] by simp
qed

lemma tablet_screenshot_scale_nonneg:
  assumes "0 \<le> tw" "tw < 2 ^ 31" "0 \<le> th" "th < 2 ^ 31" "dimension w" "dimension h"
  shows "tablet_screenshot_scale tw th w h =
    (let s = min (rnd53 (rnd53 (of_int tw * float_lit (8 / 10)) / of_int w))
                 (rnd53 (rnd53 (of_int th * float_lit (9 / 10)) / of_int h))
     in Inr (s, \<lfloor>rnd53 (of_int w * s)\<rfloor>, \<lfloor>rnd53 (of_int h * s)\<rfloor>))"
proof -
  define s where "s = min (rnd53 (rnd53 (of_int tw * float_lit (8 / 10)) / of_int w))
                 (rnd53 (rnd53 (of_int th * float_lit (9 / 10)) / of_int h))"
  note x = tablet_side_in_range [OF assms(1,2,5) float_lit_08_range]
    and y = tablet_side_in_range [OF assms(3,4,6) float_lit_09_range]
  have s: "0 \<le> s" "s \<le> 2 ^ 40"
    using x(3,4) y(3,4) by (simp_all add: s_def min_def)
  note w = dimension_rat [OF assms(5)] and h = dimension_rat [OF assms(6)]
  have fw: "int_mul_float w s = Inr (rnd53 (of_int w * s))"
    and fh: "int_mul_float h s = Inr (rnd53 (of_int h * s))"
    using int_mul_float_in_range [OF dimensionD(1) [OF assms(5)] dimensionD(2) [OF assms(5)] s]
      int_mul_float_in_range [OF dimensionD(1) [OF assms(6)] dimensionD(2) [OF assms(6)] s]
    by simp_all
  have "0 \<le> rnd53 (of_int w * s)" "0 \<le> rnd53 (of_int h * s)"
    using w h s by (simp_all add: rnd53_nonneg)
  then show ?thesis
    unfolding tablet_screenshot_scale_def x(1,2) y(1,2) bind_exn_Inr s_def [symmetric] Let_def
      fw fh
    by (simp add: float_trunc_nonneg)
qed

lemma tablet_screenshot_scale_in_range:
  assumes "dimension tw" "dimension th" "dimension w" "dimension h"
  shows "tablet_screenshot_scale tw th w h =
    (let s = min (rnd53 (rnd53 (of_int tw * float_lit (8 / 10)) / of_int w))
                 (rnd53 (rnd53 (of_int th * float_lit (9 / 10)) / of_int h))
     in Inr (s, \<lfloor>rnd53 (of_int w * s)\<rfloor>, \<lfloor>rnd53 (of_int h * s)\<rfloor>))"
  using assms by (intro tablet_screenshot_scale_nonneg dimensionD)

section \<open>Evaluating the scale on given sizes\<close>

lemma feature_graphic_scale_eval:
  assumes "dimension tw" "dimension th" "dimension w" "dimension h"
    and "rnd53 (of_int tw / of_int w) = a" "rnd53 (of_int th / of_int h) = b"
    and "rnd53 (of_int w * min a b) = p" "rnd53 (of_int h * min a b) = q"
    and "\<lfloor>p\<rfloor> = nw" "\<lfloor>q\<rfloor> = nh"
  shows "feature_graphic_scale tw th w h = Inr (min a b, nw, nh)"
  unfolding feature_graphic_scale_in_range [OF assms(1-4)] Let_def assms(5-) ..

lemma tablet_screenshot_scale_eval:
  assumes "dimension tw" "dimension th" "dimension w" "dimension h"
    and "rnd53 (of_int tw * float_lit (8 / 10)) = tx" "rnd53 (tx / of_int w) = a"
    and "rnd53 (of_int th * float_lit (9 / 10)) = ty" "rnd53 (ty / of_int h) = b"
    and "rnd53 (of_int w * min a b) = p" "rnd53 (of_int h * min a b) = q"
    and "\<lfloor>p\<rfloor> = nw" "\<lfloor>q\<rfloor> = nh"
  shows "tablet_screenshot_scale tw th w h = Inr (min a b, nw, nh)"
  unfolding tablet_screenshot_scale_in_range [OF assms(1-4)] Let_def assms(5-) ..

lemma feature_narrow_scale:
  "feature_graphic_scale 1024 500 1 10000 = Inr (3602879701896397 / 72057594037927936, 0, 500)"
proof -
  have "feature_graphic_scale 1024 500 1 10000 =
      Inr (min 1024 (3602879701896397 / 72057594037927936), 0, 500)"
  proof (rule feature_graphic_scale_eval)
    show "rnd53 (of_int 1024 / of_int 1) = 1024"
      using rnd53_exact [of 1024 0] by simp
    show "rnd53 (of_int 500 / of_int 10000) = 3602879701896397 / 72057594037927936"
      using rnd53_eqI [of "500 / 10000" "- 57" 7205759403792794] by simp
    show "rnd53 (of_int 1 * min 1024 (3602879701896397 / 72057594037927936)) =
        3602879701896397 / 72057594037927936"
      using rnd53_eqI [of "3602879701896397 / 72057594037927936" "- 57" 7205759403792794]
      by simp
    show "rnd53 (of_int 10000 * min 1024 (3602879701896397 / 72057594037927936)) = 500"
      using rnd53_eqI [of "10000 * (3602879701896397 / 72057594037927936)" "- 44"
          8796093022208000]
      by simp
    show "\<lfloor>3602879701896397 / 72057594037927936 :: rat\<rfloor> = 0"
      by (rule floor_unique) simp_all
    show "\<lfloor>500 :: rat\<rfloor> = 500" by simp
  qed (simp_all add: dimension_def)
  then show ?thesis by simp
qed

lemma tablet_narrow_scale:
  "tablet_screenshot_scale 1920 1080 1 10000 = Inr (7003998140486595 / 72057594037927936, 0, 972)"
proof -
  have "tablet_screenshot_scale 1920 1080 1 10000 =
      Inr (min 1536 (7003998140486595 / 72057594037927936), 0, 972)"
  proof (rule tablet_screenshot_scale_eval)
    show "rnd53 (of_int 1920 * float_lit (8 / 10)) = 1536"
      unfolding float_lit_08
      using rnd53_eqI [of "54043195528445955 / 35184372088832" "- 42" 6755399441055744]
      by simp
    show "rnd53 (1536 / of_int 1) = 1536"
      using rnd53_eqI [of "1536" "- 42" 6755399441055744]
      by simp
    show "rnd53 (of_int 1080 * float_lit (9 / 10)) = 972"
      unfolding float_lit_09
      using rnd53_eqI [of "1094374709451030555 / 1125899906842624" "- 43" 8549802417586176]
      by simp
    show "rnd53 (972 / of_int 10000) = 7003998140486595 / 72057594037927936"
      using rnd53_eqI [of "243 / 2500" "- 56" 7003998140486595]
      by simp
    show "rnd53 (of_int 1 * min 1536 (7003998140486595 / 72057594037927936)) = 7003998140486595 / 72057594037927936"
      using rnd53_eqI [of "7003998140486595 / 72057594037927936" "- 56" 7003998140486595]
      by simp
    show "rnd53 (of_int 10000 * min 1536 (7003998140486595 / 72057594037927936)) = 972"
      using rnd53_eqI [of "4377498837804121875 / 4503599627370496" "- 43" 8549802417586176]
      by simp
    show "\<lfloor>7003998140486595 / 72057594037927936 :: rat\<rfloor> = 0"
      by (rule floor_unique) simp_all
    show "\<lfloor>972 :: rat\<rfloor> = 972"
      by (rule floor_unique) simp_all
  qed (simp_all add: dimension_def)
  then show ?thesis by simp
qed

lemma feature_49_scale:
  "feature_graphic_scale 1024 500 49 1 = Inr (5882252574524729 / 281474976710656, 1023, 20)"
proof -
  have "feature_graphic_scale 1024 500 49 1 =
      Inr (min (5882252574524729 / 281474976710656) 500, 1023, 20)"
  proof (rule feature_graphic_scale_eval)
    show "rnd53 (of_int 1024 / of_int 49) = 5882252574524729 / 281474976710656"
      using rnd53_eqI [of "1024 / 49" "- 48" 5882252574524729]
      by simp
    show "rnd53 (of_int 500 / of_int 1) = 500"
      using rnd53_eqI [of "500" "- 44" 8796093022208000]
      by simp
    show "rnd53 (of_int 49 * min (5882252574524729 / 281474976710656) 500) = 9007199254740991 / 8796093022208"
      using rnd53_eqI [of "288230376151711721 / 281474976710656" "- 43" 9007199254740991]
      by simp
    show "rnd53 (of_int 1 * min (5882252574524729 / 281474976710656) 500) = 5882252574524729 / 281474976710656"
      using rnd53_eqI [of "5882252574524729 / 281474976710656" "- 48" 5882252574524729]
      by simp
    show "\<lfloor>9007199254740991 / 8796093022208 :: rat\<rfloor> = 1023"
      by (rule floor_unique) simp_all
    show "\<lfloor>5882252574524729 / 281474976710656 :: rat\<rfloor> = 20"
      by (rule floor_unique) simp_all
  qed (simp_all add: dimension_def)
  then show ?thesis by simp
qed

lemma tablet_same_size_scale:
  "tablet_screenshot_scale 1920 1080 1920 1080 = Inr (3602879701896397 / 4503599627370496, 1536, 864)"
proof -
  have "tablet_screenshot_scale 1920 1080 1920 1080 =
      Inr (min (3602879701896397 / 4503599627370496) (8106479329266893 / 9007199254740992), 1536, 864)"
  proof (rule tablet_screenshot_scale_eval)
    show "rnd53 (of_int 1920 * float_lit (8 / 10)) = 1536"
      unfolding float_lit_08
      using rnd53_eqI [of "54043195528445955 / 35184372088832" "- 42" 6755399441055744]
      by simp
    show "rnd53 (1536 / of_int 1920) = 3602879701896397 / 4503599627370496"
      using rnd53_eqI [of "4 / 5" "- 53" 7205759403792794]
      by simp
    show "rnd53 (of_int 1080 * float_lit (9 / 10)) = 972"
      unfolding float_lit_09
      using rnd53_eqI [of "1094374709451030555 / 1125899906842624" "- 43" 8549802417586176]
      by simp
    show "rnd53 (972 / of_int 1080) = 8106479329266893 / 9007199254740992"
      using rnd53_eqI [of "9 / 10" "- 53" 8106479329266893]
      by simp
    show "rnd53 (of_int 1920 * min (3602879701896397 / 4503599627370496) (8106479329266893 / 9007199254740992)) = 1536"
      using rnd53_eqI [of "54043195528445955 / 35184372088832" "- 42" 6755399441055744]
      by simp
    show "rnd53 (of_int 1080 * min (3602879701896397 / 4503599627370496) (8106479329266893 / 9007199254740992)) = 864"
      using rnd53_eqI [of "486388759756013595 / 562949953421312" "- 43" 7599824371187712]
      by simp
    show "\<lfloor>1536 :: rat\<rfloor> = 1536"
      by (rule floor_unique) simp_all
    show "\<lfloor>864 :: rat\<rfloor> = 864"
      by (rule floor_unique) simp_all
  qed (simp_all add: dimension_def)
  then show ?thesis by simp
qed

section \<open>Centering\<close>

text \<open>
  Claim C4. The position of the paste is \<open>(target_width - new_width) div 2\<close> and
  \<open>(target_height - new_height) div 2\<close> (Python's \<^verbatim>\<open>//\<close> on integers is \<open>div\<close>),
  and the left margin, the image and an equal right margin differ from the target width by
  at most one pixel; the same holds vertically.
\<close>

theorem centering_offsets:
  "center_position tw th nw nh = ((tw - nw) div 2, (th - nh) div 2)
   \<and> \<bar>tw - (fst (center_position tw th nw nh) + nw + fst (center_position tw th nw nh))\<bar> \<le> 1
   \<and> \<bar>th - (snd (center_position tw th nw nh) + nh + snd (center_position tw th nw nh))\<bar> \<le> 1"
  by (simp add: center_position_def Let_def) presburger


section \<open>The size of the output\<close>

lemma tablet_example_small_canvas:
  "tablet_screenshot_scale 1024 500 2000 1000 = Inr (7378697629483821 / 18014398509481984, 819, 409)"
proof -
  have "tablet_screenshot_scale 1024 500 2000 1000 =
      Inr (min (7378697629483821 / 18014398509481984) (8106479329266893 / 18014398509481984), 819, 409)"
  proof (rule tablet_screenshot_scale_eval)
    show "rnd53 (of_int 1024 * float_lit (8 / 10)) = 3602879701896397 / 4398046511104"
      unfolding float_lit_08
      using rnd53_eqI [of "3602879701896397 / 4398046511104" "- 43" 7205759403792794]
      by simp
    show "rnd53 ((3602879701896397 / 4398046511104) / of_int 2000) = 7378697629483821 / 18014398509481984"
      using rnd53_eqI [of "3602879701896397 / 8796093022208000" "- 54" 7378697629483821]
      by simp
    show "rnd53 (of_int 500 * float_lit (9 / 10)) = 450"
      unfolding float_lit_09
      using rnd53_eqI [of "1013309916158361625 / 2251799813685248" "- 44" 7916483719987200]
      by simp
    show "rnd53 (450 / of_int 1000) = 8106479329266893 / 18014398509481984"
      using rnd53_eqI [of "9 / 20" "- 54" 8106479329266893]
      by simp
    show "rnd53 (of_int 2000 * min (7378697629483821 / 18014398509481984) (8106479329266893 / 18014398509481984)) = 3602879701896397 / 4398046511104"
      using rnd53_eqI [of "922337203685477625 / 1125899906842624" "- 43" 7205759403792794]
      by simp
    show "rnd53 (of_int 1000 * min (7378697629483821 / 18014398509481984) (8106479329266893 / 18014398509481984)) = 3602879701896397 / 8796093022208"
      using rnd53_eqI [of "922337203685477625 / 2251799813685248" "- 44" 7205759403792794]
      by simp
    show "\<lfloor>3602879701896397 / 4398046511104 :: rat\<rfloor> = 819"
      by (rule floor_unique) simp_all
    show "\<lfloor>3602879701896397 / 8796093022208 :: rat\<rfloor> = 409"
      by (rule floor_unique) simp_all
  qed (simp_all add: dimension_def)
  then show ?thesis by simp
qed

lemma Image_new_nonneg:
  "0 \<le> w \<Longrightarrow> 0 \<le> h \<Longrightarrow>
   Image_new m (w, h) c = Inr \<lparr>mode = m, width = nat w, height = nat h, pixel = (\<lambda>i j. c)\<rparr>"
  by (simp add: Image_new_def)

lemma Image_new_negative: "w < 0 \<or> h < 0 \<Longrightarrow> Image_new m (w, h) c = Inl ValueError"
  by (auto simp: Image_new_def)

lemma paste_size [simp]: "width (paste dst src pos) = width dst" "height (paste dst src pos) = height dst"
  by (simp_all add: paste_def split: prod.splits)

lemma feature_graphic_image_eq:
  assumes "feature_graphic_scale tw th (int (width (rgb_image L img0)))
      (int (height (rgb_image L img0))) = Inr (s, nw, nh)"
    and "0 \<le> tw" "0 \<le> th"
  shows "feature_graphic_image L img0 tw th =
    (case lib_resize L (rgb_image L img0) (nw, nh) of
       Inl e \<Rightarrow> Inl e
     | Inr r \<Rightarrow> Inr (paste \<lparr>mode = ''RGB'', width = nat tw, height = nat th,
                            pixel = (\<lambda>i j. background)\<rparr> r
                       (center_position tw th nw nh)))"
  using assms
  by (simp add: feature_graphic_image_def Let_def Image_new_nonneg bind_exn_def split: sum.splits)

lemma tablet_screenshot_image_eq:
  assumes "tablet_screenshot_scale tw th (int (width (rgb_image L img0)))
      (int (height (rgb_image L img0))) = Inr (s, nw, nh)"
    and "0 \<le> tw" "0 \<le> th"
  shows "tablet_screenshot_image L img0 tw th =
    (case lib_resize L (rgb_image L img0) (nw, nh) of
       Inl e \<Rightarrow> Inl e
     | Inr r \<Rightarrow> Inr (paste \<lparr>mode = ''RGB'', width = nat tw, height = nat th,
                            pixel = (\<lambda>i j. background)\<rparr> r
                       (center_position tw th nw nh)))"
  using assms
  by (simp add: tablet_screenshot_image_def Let_def Image_new_nonneg bind_exn_def split: sum.splits)

lemma blank_rgb [simp]:
  "rgb_image L (blank w h) = blank w h" "width (blank w h) = w" "height (blank w h) = h"
  by (simp_all add: rgb_image_def blank_def)

lemma strict_resize_refuses:
  "w < 1 \<or> h < 1 \<Longrightarrow> lib_resize strict_pil img (w, h) = Inl ValueError"
  by (auto simp: strict_pil_def strict_resize_def)

lemma strict_resize_accepts:
  "1 \<le> w \<Longrightarrow> 1 \<le> h \<Longrightarrow> \<exists>r. lib_resize strict_pil img (w, h) = Inr r \<and> mode r = mode img"
  by (simp add: strict_pil_def strict_resize_def)

text \<open>
  Claim C1 as stated fails: a source 1 pixel wide and 10000 high has positive sides, its
  scaled width is 0 on both canvases, the library refuses to resize to a side below 1, and
  the converters raise that error: there is no output image.
\<close>

theorem narrow_source_counterexample:
  "dimension (int (width (blank 1 10000))) \<and> dimension (int (height (blank 1 10000)))
   \<and> dimension 1024 \<and> dimension 500 \<and> dimension 1920 \<and> dimension 1080
   \<and> feature_graphic_image strict_pil (blank 1 10000) 1024 500 = Inl ValueError
   \<and> tablet_screenshot_image strict_pil (blank 1 10000) 1920 1080 = Inl ValueError"
proof -
  have "feature_graphic_scale 1024 500 (int (width (rgb_image strict_pil (blank 1 10000))))
      (int (height (rgb_image strict_pil (blank 1 10000)))) =
      Inr (3602879701896397 / 72057594037927936, 0, 500)"
    by (simp add: feature_narrow_scale)
  from feature_graphic_image_eq [OF this]
  have f: "feature_graphic_image strict_pil (blank 1 10000) 1024 500 = Inl ValueError"
    by (simp add: strict_resize_refuses)
  have "tablet_screenshot_scale 1920 1080 (int (width (rgb_image strict_pil (blank 1 10000))))
      (int (height (rgb_image strict_pil (blank 1 10000)))) =
      Inr (7003998140486595 / 72057594037927936, 0, 972)"
    by (simp add: tablet_narrow_scale)
  from tablet_screenshot_image_eq [OF this]
  have t: "tablet_screenshot_image strict_pil (blank 1 10000) 1920 1080 = Inl ValueError"
    by (simp add: strict_resize_refuses)
  show ?thesis
    using f t by (simp add: dimension_def)
qed

text \<open>
  Claim C1, amended. For a source image and a target canvas with positive sides, both
  converters compute a scaled size and hand it to the library's resize. When the resize
  returns an image, the converter returns an output image whose size is exactly
  \<open>(target_width, target_height)\<close>; when the resize raises, as it does for a scaled side
  of 0, the converter raises the same error and produces no output.
\<close>

theorem output_size:
  assumes "dimension tw" "dimension th"
    and "dimension (int (width (rgb_image L img0)))"
    and "dimension (int (height (rgb_image L img0)))"
  shows "(\<exists>s nw nh.
      feature_graphic_scale tw th (int (width (rgb_image L img0)))
        (int (height (rgb_image L img0))) = Inr (s, nw, nh) \<and>
      (case lib_resize L (rgb_image L img0) (nw, nh) of
         Inl e \<Rightarrow> feature_graphic_image L img0 tw th = Inl e
       | Inr r \<Rightarrow> \<exists>out. feature_graphic_image L img0 tw th = Inr out \<and>
            int (width out) = tw \<and> int (height out) = th))
    \<and> (\<exists>s nw nh.
      tablet_screenshot_scale tw th (int (width (rgb_image L img0)))
        (int (height (rgb_image L img0))) = Inr (s, nw, nh) \<and>
      (case lib_resize L (rgb_image L img0) (nw, nh) of
         Inl e \<Rightarrow> tablet_screenshot_image L img0 tw th = Inl e
       | Inr r \<Rightarrow> \<exists>out. tablet_screenshot_image L img0 tw th = Inr out \<and>
            int (width out) = tw \<and> int (height out) = th))"
proof -
  have t: "0 \<le> tw" "0 \<le> th"
    using assms(1,2) by (simp_all add: dimension_def)
  obtain s nw nh where f: "feature_graphic_scale tw th (int (width (rgb_image L img0)))
        (int (height (rgb_image L img0))) = Inr (s, nw, nh)"
    unfolding feature_graphic_scale_in_range [OF assms] Let_def by blast
  obtain s' nw' nh' where g: "tablet_screenshot_scale tw th (int (width (rgb_image L img0)))
        (int (height (rgb_image L img0))) = Inr (s', nw', nh')"
    unfolding tablet_screenshot_scale_in_range [OF assms] Let_def by blast
  have "case lib_resize L (rgb_image L img0) (nw, nh) of
         Inl e \<Rightarrow> feature_graphic_image L img0 tw th = Inl e
       | Inr r \<Rightarrow> \<exists>out. feature_graphic_image L img0 tw th = Inr out \<and>
            int (width out) = tw \<and> int (height out) = th"
    unfolding feature_graphic_image_eq [OF f t] using t by (simp split: sum.splits)
  moreover have "case lib_resize L (rgb_image L img0) (nw', nh') of
         Inl e \<Rightarrow> tablet_screenshot_image L img0 tw th = Inl e
       | Inr r \<Rightarrow> \<exists>out. tablet_screenshot_image L img0 tw th = Inr out \<and>
            int (width out) = tw \<and> int (height out) = th"
    unfolding tablet_screenshot_image_eq [OF g t] using t by (simp split: sum.splits)
  ultimately show ?thesis using f g by blast
qed

theorem output_size_witness:
  "dimension 1024 \<and> dimension 500
   \<and> dimension (int (width (rgb_image strict_pil (blank 2000 1000))))
   \<and> dimension (int (height (rgb_image strict_pil (blank 2000 1000))))
   \<and> (\<exists>out. feature_graphic_image strict_pil (blank 2000 1000) 1024 500 = Inr out \<and>
         int (width out) = 1024 \<and> int (height out) = 500)
   \<and> (\<exists>out. tablet_screenshot_image strict_pil (blank 2000 1000) 1024 500 = Inr out \<and>
         int (width out) = 1024 \<and> int (height out) = 500)"
proof -
  have d: "dimension 1024" "dimension 500"
    "dimension (int (width (rgb_image strict_pil (blank 2000 1000))))"
    "dimension (int (height (rgb_image strict_pil (blank 2000 1000))))"
    by (simp_all add: dimension_def)
  obtain r where r: "lib_resize strict_pil (blank 2000 1000) (1000, 500) = Inr r"
    using strict_resize_accepts [of 1000 500] by auto
  obtain r' where r': "lib_resize strict_pil (blank 2000 1000) (819, 409) = Inr r'"
    using strict_resize_accepts [of 819 409] by auto
  show ?thesis
    using output_size [OF d] d
    by (simp add: feature_example_scale tablet_example_small_canvas r r')
qed

section \<open>A scaled side of zero\<close>

text \<open>
  Claim C10. A source of positive size can get a scaled side of 0: a 1 x 10000 image is
  scaled to 0 x 500 for the 1024 x 500 canvas and to 0 x 972 for the 1920 x 1080 canvas.
  Neither converter guards against it: the library's resize is called with that size, and
  its answer is the converter's (an error of the resize is the error of the conversion, as
  with the library that refuses a side below 1).
\<close>

theorem zero_dimension_resize:
  "feature_graphic_scale 1024 500 1 10000 =
     Inr (3602879701896397 / 72057594037927936, 0, 500)
   \<and> feature_graphic_image L (blank 1 10000) 1024 500 =
     (case lib_resize L (blank 1 10000) (0, 500) of
        Inl e \<Rightarrow> Inl e
      | Inr r \<Rightarrow> Inr (paste \<lparr>mode = ''RGB'', width = 1024, height = 500,
                             pixel = (\<lambda>i j. background)\<rparr> r (512, 0)))
   \<and> feature_graphic_image strict_pil (blank 1 10000) 1024 500 = Inl ValueError
   \<and> tablet_screenshot_scale 1920 1080 1 10000 =
     Inr (7003998140486595 / 72057594037927936, 0, 972)
   \<and> tablet_screenshot_image L (blank 1 10000) 1920 1080 =
     (case lib_resize L (blank 1 10000) (0, 972) of
        Inl e \<Rightarrow> Inl e
      | Inr r \<Rightarrow> Inr (paste \<lparr>mode = ''RGB'', width = 1920, height = 1080,
                             pixel = (\<lambda>i j. background)\<rparr> r (960, 54)))
   \<and> tablet_screenshot_image strict_pil (blank 1 10000) 1920 1080 = Inl ValueError"
proof -
  have f: "feature_graphic_scale 1024 500 (int (width (rgb_image L (blank 1 10000))))
      (int (height (rgb_image L (blank 1 10000)))) =
      Inr (3602879701896397 / 72057594037927936, 0, 500)" for L
    by (simp add: feature_narrow_scale)
  have t: "tablet_screenshot_scale 1920 1080 (int (width (rgb_image L (blank 1 10000))))
      (int (height (rgb_image L (blank 1 10000)))) =
      Inr (7003998140486595 / 72057594037927936, 0, 972)" for L
    by (simp add: tablet_narrow_scale)
  have fi: "feature_graphic_image L (blank 1 10000) 1024 500 =
     (case lib_resize L (blank 1 10000) (0, 500) of
        Inl e \<Rightarrow> Inl e
      | Inr r \<Rightarrow> Inr (paste \<lparr>mode = ''RGB'', width = 1024, height = 500,
                             pixel = (\<lambda>i j. background)\<rparr> r (512, 0)))" for L
    by (subst feature_graphic_image_eq [OF f]) (simp_all add: center_position_def split: sum.splits)
  have ti: "tablet_screenshot_image L (blank 1 10000) 1920 1080 =
     (case lib_resize L (blank 1 10000) (0, 972) of
        Inl e \<Rightarrow> Inl e
      | Inr r \<Rightarrow> Inr (paste \<lparr>mode = ''RGB'', width = 1920, height = 1080,
                             pixel = (\<lambda>i j. background)\<rparr> r (960, 54)))" for L
    by (subst tablet_screenshot_image_eq [OF t]) (simp_all add: center_position_def split: sum.splits)
  have s: "lib_resize strict_pil img (0, h) = Inl ValueError" for img h
    by (simp add: strict_pil_def strict_resize_def)
  show ?thesis
    unfolding fi ti s
    by (simp add: feature_narrow_scale tablet_narrow_scale)
qed

section \<open>The scripts and the specification's formula\<close>

lemma spec_side_fill_one:
  assumes "dimension t" "dimension n"
  shows "int_mul_float t 1 = Inr (of_int t)"
    and "float_div_int (of_int t) n = Inr (rnd53 (of_int t / of_int n))"
    and "int_truediv t n = Inr (rnd53 (of_int t / of_int n))"
proof -
  note t = dimension_rat [OF assms(1)]
  have "int_mul_float t 1 = Inr (rnd53 (of_int t * 1))"
    using dimensionD [OF assms(1)] by (intro int_mul_float_in_range) simp_all
  then show "int_mul_float t 1 = Inr (of_int t)"
    using rnd53_of_int [OF t(3)] by simp
  have "(of_int t :: rat) \<le> 2 ^ 40"
    using t(2) by (rule order_trans [OF less_imp_le]) simp
  then show "float_div_int (of_int t) n = Inr (rnd53 (of_int t / of_int n))"
    using assms(2) t(1) by (intro float_div_int_in_range) simp_all
  show "int_truediv t n = Inr (rnd53 (of_int t / of_int n))"
    using dimensionD [OF assms(1)] assms(2) by (rule int_truediv_in_range)
qed

text \<open>
  Claim C2. For sizes the library can hold, the scale and the scaled size that the two
  scripts compute are those of the specification's formula, with fill fractions 1.0 and 1.0
  for the feature graphic and 0.8 and 0.9 for the tablet screenshot: the scale is the
  smaller of the two rounded quotients, and the scaled sides are the integer parts of the
  rounded products of the source sides and the scale.
\<close>

theorem scale_formula:
  assumes "dimension tw" "dimension th" "dimension w" "dimension h"
  shows "feature_graphic_scale tw th w h = fit_to_canvas_scale 1 1 tw th w h
    \<and> tablet_screenshot_scale tw th w h =
        fit_to_canvas_scale (float_lit (8 / 10)) (float_lit (9 / 10)) tw th w h
    \<and> feature_graphic_scale tw th w h =
        (let scale = min (rnd53 (of_int tw / of_int w)) (rnd53 (of_int th / of_int h))
         in Inr (scale, \<lfloor>rnd53 (of_int w * scale)\<rfloor>, \<lfloor>rnd53 (of_int h * scale)\<rfloor>))
    \<and> tablet_screenshot_scale tw th w h =
        (let scale = min (rnd53 (rnd53 (of_int tw * float_lit (8 / 10)) / of_int w))
                         (rnd53 (rnd53 (of_int th * float_lit (9 / 10)) / of_int h))
         in Inr (scale, \<lfloor>rnd53 (of_int w * scale)\<rfloor>, \<lfloor>rnd53 (of_int h * scale)\<rfloor>))"
proof -
  note x = spec_side_fill_one [OF assms(1,3)] and y = spec_side_fill_one [OF assms(2,4)]
  have "fit_to_canvas_scale 1 1 tw th w h = feature_graphic_scale tw th w h"
    unfolding fit_to_canvas_scale_def feature_graphic_scale_def x y bind_exn_Inr Let_def ..
  moreover have "tablet_screenshot_scale tw th w h =
        fit_to_canvas_scale (float_lit (8 / 10)) (float_lit (9 / 10)) tw th w h"
    unfolding fit_to_canvas_scale_def tablet_screenshot_scale_def Let_def ..
  ultimately show ?thesis
    using feature_graphic_scale_in_range [OF assms] tablet_screenshot_scale_in_range [OF assms]
    by simp
qed

theorem scale_formula_witness:
  "dimension 1024 \<and> dimension 500 \<and> dimension 2000 \<and> dimension 1000
   \<and> fit_to_canvas_scale 1 1 1024 500 2000 1000 = Inr (1 / 2, 1000, 500)
   \<and> fit_to_canvas_scale (float_lit (8 / 10)) (float_lit (9 / 10)) 1024 500 2000 1000 =
       Inr (7378697629483821 / 18014398509481984, 819, 409)"
proof -
  have d: "dimension 1024" "dimension 500" "dimension 2000" "dimension 1000"
    by (simp_all add: dimension_def)
  show ?thesis
    using scale_formula [OF d] d feature_example_scale tablet_example_small_canvas
    by simp
qed

section \<open>An image of the target size\<close>

text \<open>
  Claim C6 as stated fails for the tablet converter: a 1920 x 1080 image on the 1920 x 1080
  canvas is scaled by 0.8 to 1536 x 864 and pasted at (192, 108).
\<close>

theorem same_size_tablet_counterexample:
  "tablet_screenshot_scale 1920 1080 1920 1080 = Inr (float_lit (8 / 10), 1536, 864)
   \<and> float_lit (8 / 10) \<noteq> 1
   \<and> center_position 1920 1080 1536 864 = (192, 108)"
  unfolding float_lit_08 tablet_same_size_scale
  by (simp add: center_position_def)

lemma feature_graphic_scale_same_size:
  assumes "dimension w" "dimension h"
  shows "feature_graphic_scale w h w h = Inr (1, w, h)"
proof -
  note w = dimension_rat [OF assms(1)] and h = dimension_rat [OF assms(2)]
  have one: "rnd53 1 = 1"
    using rnd53_of_int [of 1] by simp
  have q: "(of_int w / of_int w :: rat) = 1" "(of_int h / of_int h :: rat) = 1"
    using w h by simp_all
  show ?thesis
    unfolding feature_graphic_scale_in_range [OF assms(1,2,1,2)] q one Let_def
    by (simp add: rnd53_of_int [OF w(3)] rnd53_of_int [OF h(3)])
qed

text \<open>
  Claim C6, amended. An image that already has the target size goes through the feature
  graphic converter with scale 1 and position (0, 0); as the library's resize to the same
  size returns the image unchanged, the output has the pixels of the input (after the
  conversion to RGB). The tablet converter does not have this property: it scales by its
  fill fractions.
\<close>

theorem same_size_feature_graphic:
  assumes "dimension (int (width (rgb_image L img0)))"
    and "dimension (int (height (rgb_image L img0)))"
    and "lib_resize L (rgb_image L img0)
          (int (width (rgb_image L img0)), int (height (rgb_image L img0))) =
         Inr (rgb_image L img0)"
  shows "feature_graphic_scale (int (width (rgb_image L img0))) (int (height (rgb_image L img0)))
          (int (width (rgb_image L img0))) (int (height (rgb_image L img0))) =
          Inr (1, int (width (rgb_image L img0)), int (height (rgb_image L img0)))
    \<and> center_position (int (width (rgb_image L img0))) (int (height (rgb_image L img0)))
          (int (width (rgb_image L img0))) (int (height (rgb_image L img0))) = (0, 0)
    \<and> (\<exists>out. feature_graphic_image L img0 (int (width (rgb_image L img0)))
            (int (height (rgb_image L img0))) = Inr out
          \<and> same_pixels out (rgb_image L img0))"
proof -
  define img where "img = rgb_image L img0"
  note s = feature_graphic_scale_same_size [OF assms(1,2)]
  have c: "center_position (int (width img)) (int (height img)) (int (width img))
      (int (height img)) = (0, 0)"
    by (simp add: center_position_def)
  have "feature_graphic_image L img0 (int (width img)) (int (height img)) =
      Inr (paste \<lparr>mode = ''RGB'', width = width img, height = height img,
                   pixel = (\<lambda>i j. background)\<rparr> img (0, 0))"
    using feature_graphic_image_eq [OF s] assms(3) by (simp add: c [unfolded img_def] img_def)
  moreover have "same_pixels (paste \<lparr>mode = ''RGB'', width = width img, height = height img,
                   pixel = (\<lambda>i j. background)\<rparr> img (0, 0)) img"
    by (simp add: same_pixels_def paste_def)
  ultimately show ?thesis
    using s c by (simp add: img_def)
qed

theorem same_size_feature_graphic_witness:
  "dimension (int (width (rgb_image strict_pil (blank 4 3))))
   \<and> dimension (int (height (rgb_image strict_pil (blank 4 3))))
   \<and> lib_resize strict_pil (rgb_image strict_pil (blank 4 3)) (4, 3) = Inr (blank 4 3)
   \<and> feature_graphic_scale 4 3 4 3 = Inr (1, 4, 3)
   \<and> center_position 4 3 4 3 = (0, 0)
   \<and> (\<exists>out. feature_graphic_image strict_pil (blank 4 3) 4 3 = Inr out
         \<and> same_pixels out (blank 4 3))"
proof -
  have d: "dimension (int (width (rgb_image strict_pil (blank 4 3))))"
    "dimension (int (height (rgb_image strict_pil (blank 4 3))))"
    by (simp_all add: dimension_def)
  have r: "lib_resize strict_pil (rgb_image strict_pil (blank 4 3))
      (int (width (rgb_image strict_pil (blank 4 3))),
       int (height (rgb_image strict_pil (blank 4 3)))) =
      Inr (rgb_image strict_pil (blank 4 3))"
    unfolding blank_rgb by (simp add: strict_pil_def strict_resize_def blank_def)
  show ?thesis
    using same_size_feature_graphic [OF d r] d r by simp
qed

section \<open>Failures of a conversion\<close>

lemma rnd53_zero [simp]: "rnd53 0 = 0"
  by (simp add: rnd53_def)

lemma feature_graphic_scale_zero_target:
  assumes "0 \<le> tw" "tw < 2 ^ 31" "0 \<le> th" "th < 2 ^ 31" "tw = 0 \<or> th = 0"
    and "dimension w" "dimension h"
  shows "feature_graphic_scale tw th w h = Inr (0, 0, 0)"
proof -
  note x = int_truediv_in_range [OF assms(1,2,6)] and y = int_truediv_in_range [OF assms(3,4,7)]
  have "min (rnd53 (of_int tw / of_int w :: rat)) (rnd53 (of_int th / of_int h)) = 0"
    using assms(5) x(2) y(2) by auto
  then show ?thesis
    unfolding feature_graphic_scale_nonneg [OF assms(1-4,6,7)] Let_def by simp
qed

lemma tablet_screenshot_scale_zero_target:
  assumes "0 \<le> tw" "tw < 2 ^ 31" "0 \<le> th" "th < 2 ^ 31" "tw = 0 \<or> th = 0"
    and "dimension w" "dimension h"
  shows "tablet_screenshot_scale tw th w h = Inr (0, 0, 0)"
proof -
  note x = tablet_side_in_range [OF assms(1,2,6) float_lit_08_range]
    and y = tablet_side_in_range [OF assms(3,4,7) float_lit_09_range]
  have "min (rnd53 (rnd53 (of_int tw * float_lit (8 / 10)) / of_int w))
            (rnd53 (rnd53 (of_int th * float_lit (9 / 10)) / of_int h)) = 0"
    using assms(5) x(3) y(3) by auto
  then show ?thesis
    unfolding tablet_screenshot_scale_nonneg [OF assms(1-4,6,7)] Let_def by simp
qed

lemma int_truediv_zero: "int_truediv a 0 = Inl ZeroDivisionError"
  by (simp add: int_truediv_def)

lemma float_div_int_zero: "float_div_int x 0 = Inl ZeroDivisionError"
  using float_of_int_exact [of 0] by (simp add: float_div_int_def float_truediv_def)

lemma feature_graphic_scale_zero_source:
  assumes "0 \<le> tw" "tw < 2 ^ 31" "0 \<le> th" "th < 2 ^ 31"
    and "0 \<le> w" "w < 2 ^ 31" "0 \<le> h" "h < 2 ^ 31" "w = 0 \<or> h = 0"
  shows "feature_graphic_scale tw th w h = Inl ZeroDivisionError"
proof (cases "w = 0")
  case True
  then show ?thesis by (simp add: feature_graphic_scale_def int_truediv_zero)
next
  case False
  then have w: "dimension w" and h: "h = 0"
    using assms(5,6,9) by (simp_all add: dimension_def)
  show ?thesis
    unfolding feature_graphic_scale_def int_truediv_in_range(1) [OF assms(1,2) w] h
      int_truediv_zero
    by simp
qed

lemma tablet_screenshot_scale_zero_source:
  assumes "0 \<le> tw" "tw < 2 ^ 31" "0 \<le> th" "th < 2 ^ 31"
    and "0 \<le> w" "w < 2 ^ 31" "0 \<le> h" "h < 2 ^ 31" "w = 0 \<or> h = 0"
  shows "tablet_screenshot_scale tw th w h = Inl ZeroDivisionError"
proof -
  have tx: "int_mul_float tw (float_lit (8 / 10)) = Inr (rnd53 (of_int tw * float_lit (8 / 10)))"
    using assms(1,2) float_lit_08_range by (intro int_mul_float_in_range) simp_all
  have ty: "int_mul_float th (float_lit (9 / 10)) = Inr (rnd53 (of_int th * float_lit (9 / 10)))"
    using assms(3,4) float_lit_09_range by (intro int_mul_float_in_range) simp_all
  show ?thesis
  proof (cases "w = 0")
    case True
    then show ?thesis
      unfolding tablet_screenshot_scale_def tx by (simp add: float_div_int_zero)
  next
    case False
    then have w: "dimension w" and h: "h = 0"
      using assms(5,6,9) by (simp_all add: dimension_def)
    show ?thesis
      unfolding tablet_screenshot_scale_def tx ty bind_exn_Inr h float_div_int_zero
        tablet_side_in_range(2) [OF assms(1,2) w float_lit_08_range]
      by simp
  qed
qed

lemma feature_graphic_image_scale_error:
  assumes "feature_graphic_scale tw th (int (width (rgb_image L img0)))
      (int (height (rgb_image L img0))) = Inl e"
    and "0 \<le> tw" "0 \<le> th"
  shows "feature_graphic_image L img0 tw th = Inl e"
  using assms by (simp add: feature_graphic_image_def Let_def Image_new_nonneg)

lemma tablet_screenshot_image_scale_error:
  assumes "tablet_screenshot_scale tw th (int (width (rgb_image L img0)))
      (int (height (rgb_image L img0))) = Inl e"
    and "0 \<le> tw" "0 \<le> th"
  shows "tablet_screenshot_image L img0 tw th = Inl e"
  using assms by (simp add: tablet_screenshot_image_def Let_def Image_new_nonneg)

lemma image_negative_target:
  assumes "tw < 0 \<or> th < 0"
  shows "feature_graphic_image L img0 tw th = Inl ValueError"
    and "tablet_screenshot_image L img0 tw th = Inl ValueError"
  using assms
  by (simp_all add: feature_graphic_image_def tablet_screenshot_image_def Let_def
      Image_new_negative)

lemma convert_undecodable:
  assumes "files w (realpath w p) = Some Other_file"
  shows "convert_feature_graphic L w p q tw th = Inl UnidentifiedImageError"
    and "create_tablet_screenshot L w p q tw th = Inl UnidentifiedImageError"
  using assms
  by (simp_all add: convert_feature_graphic_def create_tablet_screenshot_def Image_open_def)

lemma convert_decodable:
  assumes "files w (realpath w p) = Some (Image_file img0)"
  shows "convert_feature_graphic L w p q tw th =
      (case feature_graphic_image L img0 tw th of
         Inl e \<Rightarrow> Inl e
       | Inr new_img \<Rightarrow> Inr (py_print (Image_save w new_img q)
             (Converted_image_size (width new_img, height new_img))))"
    and "create_tablet_screenshot L w p q tw th =
      (case tablet_screenshot_image L img0 tw th of
         Inl e \<Rightarrow> Inl e
       | Inr new_img \<Rightarrow> Inr (Image_save w new_img q))"
  using assms
  by (simp_all add: convert_feature_graphic_def create_tablet_screenshot_def Image_open_def
      bind_exn_def)

lemma image_zero_target:
  assumes "dimension (int (width (rgb_image L img0)))"
    and "dimension (int (height (rgb_image L img0)))"
    and "0 \<le> tw" "tw < 2 ^ 31" "0 \<le> th" "th < 2 ^ 31" "tw = 0 \<or> th = 0"
    and "lib_resize L (rgb_image L img0) (0, 0) = Inl e"
  shows "feature_graphic_image L img0 tw th = Inl e"
    and "tablet_screenshot_image L img0 tw th = Inl e"
proof -
  have "feature_graphic_scale tw th (int (width (rgb_image L img0)))
      (int (height (rgb_image L img0))) = Inr (0, 0, 0)"
    using assms(1-7) by (intro feature_graphic_scale_zero_target) simp_all
  from feature_graphic_image_eq [OF this assms(3,5)]
  show "feature_graphic_image L img0 tw th = Inl e"
    by (simp add: assms(8))
  have "tablet_screenshot_scale tw th (int (width (rgb_image L img0)))
      (int (height (rgb_image L img0))) = Inr (0, 0, 0)"
    using assms(1-7) by (intro tablet_screenshot_scale_zero_target) simp_all
  from tablet_screenshot_image_eq [OF this assms(3,5)]
  show "tablet_screenshot_image L img0 tw th = Inl e"
    by (simp add: assms(8))
qed

text \<open>
  Claim C7. Both converters fail in each of the cases of the claim, with the errors that
  Python and the library raise (the scripts define no error kinds and validate nothing
  themselves). A file that does not decode fails with the library's
  \<open>UnidentifiedImageError\<close> of \<^verbatim>\<open>Image.open\<close>. A source with a side of 0 fails with
  \<open>ZeroDivisionError\<close> at the quotient of line 22 (for a target without a negative side,
  whose canvas is made first). A negative target side fails with the \<open>ValueError\<close> of
  \<^verbatim>\<open>Image.new\<close>. A target side of 0 makes the scale 0 and the scaled size (0, 0), and the
  conversion fails with the \<open>ValueError\<close> of the library's resize, which refuses that size.
  The sides are those of images that can exist (below \<open>2 ^ 31\<close>).
\<close>

theorem conversion_failures:
  "(files w (realpath w p) = Some Other_file \<longrightarrow>
      convert_feature_graphic L w p q tw th = Inl UnidentifiedImageError
      \<and> create_tablet_screenshot L w p q tw th = Inl UnidentifiedImageError)
   \<and> (files w (realpath w p) = Some (Image_file img0)
      \<and> (width (rgb_image L img0) = 0 \<or> height (rgb_image L img0) = 0)
      \<and> int (width (rgb_image L img0)) < 2 ^ 31 \<and> int (height (rgb_image L img0)) < 2 ^ 31
      \<and> 0 \<le> tw \<and> tw < 2 ^ 31 \<and> 0 \<le> th \<and> th < 2 ^ 31 \<longrightarrow>
      convert_feature_graphic L w p q tw th = Inl ZeroDivisionError
      \<and> create_tablet_screenshot L w p q tw th = Inl ZeroDivisionError)
   \<and> (files w (realpath w p) = Some (Image_file img0) \<and> (tw < 0 \<or> th < 0) \<longrightarrow>
      convert_feature_graphic L w p q tw th = Inl ValueError
      \<and> create_tablet_screenshot L w p q tw th = Inl ValueError)
   \<and> (files w (realpath w p) = Some (Image_file img0)
      \<and> dimension (int (width (rgb_image L img0))) \<and> dimension (int (height (rgb_image L img0)))
      \<and> 0 \<le> tw \<and> tw < 2 ^ 31 \<and> 0 \<le> th \<and> th < 2 ^ 31 \<and> (tw = 0 \<or> th = 0)
      \<and> lib_resize L (rgb_image L img0) (0, 0) = Inl ValueError \<longrightarrow>
      convert_feature_graphic L w p q tw th = Inl ValueError
      \<and> create_tablet_screenshot L w p q tw th = Inl ValueError)"
proof (intro conjI impI)
  assume "files w (realpath w p) = Some Other_file"
  then show "convert_feature_graphic L w p q tw th = Inl UnidentifiedImageError"
    and "create_tablet_screenshot L w p q tw th = Inl UnidentifiedImageError"
    by (rule convert_undecodable)+
next
  assume a: "files w (realpath w p) = Some (Image_file img0)
      \<and> (width (rgb_image L img0) = 0 \<or> height (rgb_image L img0) = 0)
      \<and> int (width (rgb_image L img0)) < 2 ^ 31 \<and> int (height (rgb_image L img0)) < 2 ^ 31
      \<and> 0 \<le> tw \<and> tw < 2 ^ 31 \<and> 0 \<le> th \<and> th < 2 ^ 31"
  then have z: "int (width (rgb_image L img0)) = 0 \<or> int (height (rgb_image L img0)) = 0"
    by auto
  have "feature_graphic_scale tw th (int (width (rgb_image L img0)))
      (int (height (rgb_image L img0))) = Inl ZeroDivisionError"
    using a z by (intro feature_graphic_scale_zero_source) simp_all
  then have "feature_graphic_image L img0 tw th = Inl ZeroDivisionError"
    using a by (intro feature_graphic_image_scale_error) simp_all
  then show "convert_feature_graphic L w p q tw th = Inl ZeroDivisionError"
    using a by (simp add: convert_decodable)
  have "tablet_screenshot_scale tw th (int (width (rgb_image L img0)))
      (int (height (rgb_image L img0))) = Inl ZeroDivisionError"
    using a z by (intro tablet_screenshot_scale_zero_source) simp_all
  then have "tablet_screenshot_image L img0 tw th = Inl ZeroDivisionError"
    using a by (intro tablet_screenshot_image_scale_error) simp_all
  then show "create_tablet_screenshot L w p q tw th = Inl ZeroDivisionError"
    using a by (simp add: convert_decodable)
next
  assume a: "files w (realpath w p) = Some (Image_file img0) \<and> (tw < 0 \<or> th < 0)"
  then show "convert_feature_graphic L w p q tw th = Inl ValueError"
    and "create_tablet_screenshot L w p q tw th = Inl ValueError"
    by (simp_all add: convert_decodable image_negative_target)
next
  assume a: "files w (realpath w p) = Some (Image_file img0)
      \<and> dimension (int (width (rgb_image L img0))) \<and> dimension (int (height (rgb_image L img0)))
      \<and> 0 \<le> tw \<and> tw < 2 ^ 31 \<and> 0 \<le> th \<and> th < 2 ^ 31 \<and> (tw = 0 \<or> th = 0)
      \<and> lib_resize L (rgb_image L img0) (0, 0) = Inl ValueError"
  then have "feature_graphic_image L img0 tw th = Inl ValueError"
    and "tablet_screenshot_image L img0 tw th = Inl ValueError"
    by (intro image_zero_target; simp)+
  then show "convert_feature_graphic L w p q tw th = Inl ValueError"
    and "create_tablet_screenshot L w p q tw th = Inl ValueError"
    using a by (simp_all add: convert_decodable)
qed

theorem conversion_failures_witness:
  "files (world_with [(''in/a.png'', Image_file (blank 10 10)),
        (''in/b.png'', Other_file), (''in/c.png'', Image_file (blank 0 5))])
      ''in/b.png'' = Some Other_file
   \<and> convert_feature_graphic strict_pil
       (world_with [(''in/a.png'', Image_file (blank 10 10)),
        (''in/b.png'', Other_file), (''in/c.png'', Image_file (blank 0 5))])
       ''in/b.png'' ''in/o.png'' 1024 500 = Inl UnidentifiedImageError
   \<and> create_tablet_screenshot strict_pil
       (world_with [(''in/a.png'', Image_file (blank 10 10)),
        (''in/b.png'', Other_file), (''in/c.png'', Image_file (blank 0 5))])
       ''in/c.png'' ''in/o.png'' 1920 1080 = Inl ZeroDivisionError
   \<and> convert_feature_graphic strict_pil
       (world_with [(''in/a.png'', Image_file (blank 10 10)),
        (''in/b.png'', Other_file), (''in/c.png'', Image_file (blank 0 5))])
       ''in/a.png'' ''in/o.png'' (- 1) 500 = Inl ValueError
   \<and> lib_resize strict_pil (rgb_image strict_pil (blank 10 10)) (0, 0) = Inl ValueError
   \<and> convert_feature_graphic strict_pil
       (world_with [(''in/a.png'', Image_file (blank 10 10)),
        (''in/b.png'', Other_file), (''in/c.png'', Image_file (blank 0 5))])
       ''in/a.png'' ''in/o.png'' 0 500 = Inl ValueError
   \<and> create_tablet_screenshot strict_pil
       (world_with [(''in/a.png'', Image_file (blank 10 10)),
        (''in/b.png'', Other_file), (''in/c.png'', Image_file (blank 0 5))])
       ''in/a.png'' ''in/o.png'' 1920 0 = Inl ValueError"
proof -
  define W where "W = world_with [(''in/a.png'', Image_file (blank 10 10)),
        (''in/b.png'', Other_file), (''in/c.png'', Image_file (blank 0 5))]"
  have fa: "files W (realpath W ''in/a.png'') = Some (Image_file (blank 10 10))"
    and fb: "files W (realpath W ''in/b.png'') = Some Other_file"
    and fc: "files W (realpath W ''in/c.png'') = Some (Image_file (blank 0 5))"
    and fb': "files W ''in/b.png'' = Some Other_file"
    by (simp_all add: W_def world_with_def)
  have s: "lib_resize strict_pil img (0, 0) = Inl ValueError" for img
    by (simp add: strict_resize_refuses)
  have d: "dimension 10" by (simp add: dimension_def)
  have "convert_feature_graphic strict_pil W ''in/b.png'' ''in/o.png'' 1024 500
      = Inl UnidentifiedImageError"
    using conversion_failures [where w = W and p = "''in/b.png''" and L = strict_pil
        and q = "''in/o.png''" and tw = 1024 and th = 500] fb
    by simp
  moreover have "create_tablet_screenshot strict_pil W ''in/c.png'' ''in/o.png''
      1920 1080 = Inl ZeroDivisionError"
    using conversion_failures [where w = W and p = "''in/c.png''" and L = strict_pil
        and q = "''in/o.png''" and tw = 1920 and th = 1080 and ?img0.0 = "blank 0 5"] fc
    by simp
  moreover have "convert_feature_graphic strict_pil W ''in/a.png'' ''in/o.png''
      (- 1) 500 = Inl ValueError"
    using conversion_failures [where w = W and p = "''in/a.png''" and L = strict_pil
        and q = "''in/o.png''" and tw = "- 1" and th = 500 and ?img0.0 = "blank 10 10"] fa
    by simp
  moreover have "convert_feature_graphic strict_pil W ''in/a.png'' ''in/o.png''
      0 500 = Inl ValueError"
    using conversion_failures [where w = W and p = "''in/a.png''" and L = strict_pil
        and q = "''in/o.png''" and tw = 0 and th = 500 and ?img0.0 = "blank 10 10"] fa d
    by (simp add: s)
  moreover have "create_tablet_screenshot strict_pil W ''in/a.png'' ''in/o.png''
      1920 0 = Inl ValueError"
    using conversion_failures [where w = W and p = "''in/a.png''" and L = strict_pil
        and q = "''in/o.png''" and tw = 1920 and th = 0 and ?img0.0 = "blank 10 10"] fa d
    by (simp add: s)
  ultimately show ?thesis
    using fb' s unfolding W_def by simp
qed

section \<open>Rounding errors of the scale\<close>

lemma unit_roundoff_pos: "0 < unit_roundoff" "unit_roundoff < 1"
  by (simp_all add: unit_roundoff_def)

lemma rnd53_enclosure:
  assumes "1 / 2 ^ 64 \<le> x"
  shows "x * (1 - unit_roundoff) \<le> rnd53 x" and "rnd53 x \<le> x * (1 + unit_roundoff)"
proof -
  have "(2::rat) powi (- 1022) \<le> 2 powi (- 64)"
    by (rule power_int_increasing) simp_all
  also have "\<dots> = 1 / 2 ^ 64"
    by (simp add: power_int_minus_divide)
  finally have "2 powi (- 1022) \<le> x" using assms by simp
  moreover have x: "0 < x"
    using assms by (rule less_le_trans [rotated]) simp
  ultimately have "\<bar>rnd53 x - x\<bar> \<le> x / 2 ^ 53"
    using rnd53_rel_err [of x] by simp
  then have e: "\<bar>rnd53 x - x\<bar> \<le> x * unit_roundoff"
    by (simp add: unit_roundoff_def)
  have e1: "x - x * unit_roundoff \<le> rnd53 x" and e2: "rnd53 x \<le> x + x * unit_roundoff"
    using e by (simp_all add: abs_le_iff algebra_simps)
  show "x * (1 - unit_roundoff) \<le> rnd53 x"
    using e1 by (simp add: algebra_simps)
  show "rnd53 x \<le> x * (1 + unit_roundoff)"
    using e2 by (simp add: algebra_simps)
qed

text \<open>Enclosures compose: one more rounding, one more factor.\<close>

lemma rnd53_lower_step:
  assumes "1 / 2 ^ 64 \<le> x" "c * (1 - unit_roundoff) ^ n \<le> x"
  shows "c * (1 - unit_roundoff) ^ Suc n \<le> rnd53 x"
proof -
  note u = unit_roundoff_pos
  have "c * (1 - unit_roundoff) ^ Suc n = (c * (1 - unit_roundoff) ^ n) * (1 - unit_roundoff)"
    by simp
  also have "\<dots> \<le> x * (1 - unit_roundoff)"
    using assms(2) u by (intro mult_right_mono) simp_all
  also have "\<dots> \<le> rnd53 x"
    using assms(1) by (rule rnd53_enclosure)
  finally show ?thesis .
qed

lemma rnd53_upper_step:
  assumes "1 / 2 ^ 64 \<le> x" "x \<le> c * (1 + unit_roundoff) ^ n"
  shows "rnd53 x \<le> c * (1 + unit_roundoff) ^ Suc n"
proof -
  note u = unit_roundoff_pos
  have "rnd53 x \<le> x * (1 + unit_roundoff)"
    using assms(1) by (rule rnd53_enclosure)
  also have "\<dots> \<le> (c * (1 + unit_roundoff) ^ n) * (1 + unit_roundoff)"
    using assms(2) u by (intro mult_right_mono) simp_all
  also have "\<dots> = c * (1 + unit_roundoff) ^ Suc n"
    by simp
  finally show ?thesis .
qed

lemma roundoff_powers:
  "(1 + unit_roundoff) ^ 4 \<le> 1 + 5 * unit_roundoff"
  "1 - 5 * unit_roundoff \<le> (1 - unit_roundoff) ^ 4"
  "1 / 2 \<le> (1 - unit_roundoff) ^ 4"
  by (simp_all add: unit_roundoff_def power_divide)

lemma roundoff_power_mono:
  "m \<le> n \<Longrightarrow> (1 - unit_roundoff) ^ n \<le> (1 - unit_roundoff) ^ m"
  "m \<le> n \<Longrightarrow> (1 + unit_roundoff) ^ m \<le> (1 + unit_roundoff) ^ n"
  using unit_roundoff_pos by (simp_all add: power_decreasing power_increasing)

lemma roundoff_lower_half:
  "1 / 2 \<le> (1 - unit_roundoff) ^ n" if "n \<le> 4"
  using roundoff_powers(3) roundoff_power_mono(1) [OF that] by (rule order_trans)

lemma feature_side_enclosure:
  assumes "dimension t" "dimension n"
  shows "of_int t / of_int n * (1 - unit_roundoff) ^ 3 \<le> rnd53 (of_int t / of_int n)"
    and "rnd53 (of_int t / of_int n) \<le> of_int t / of_int n * (1 + unit_roundoff) ^ 3"
proof -
  note t = dimension_rat [OF assms(1)] and n = dimension_rat [OF assms(2)]
  define x :: rat where "x = of_int t / of_int n"
  have "1 / 2 ^ 31 \<le> 1 / (of_int n :: rat)"
    using n by (intro divide_left_mono) simp_all
  also have "\<dots> \<le> x"
    unfolding x_def using t n by (intro divide_right_mono) simp_all
  finally have lo: "1 / 2 ^ 31 \<le> x" .
  have "(1::rat) / 2 ^ 64 \<le> 1 / 2 ^ 31"
    by (intro divide_left_mono power_increasing) simp_all
  then have r: "1 / 2 ^ 64 \<le> x" using lo by simp
  have x: "0 \<le> x" using lo by (rule order_trans [rotated]) simp
  have "x * (1 - unit_roundoff) ^ 3 \<le> x * (1 - unit_roundoff) ^ Suc 0"
    using x by (intro mult_left_mono roundoff_power_mono) simp_all
  also have "\<dots> \<le> rnd53 x"
    using rnd53_lower_step [of x x 0] r by simp
  finally show "of_int t / of_int n * (1 - unit_roundoff) ^ 3 \<le> rnd53 (of_int t / of_int n)"
    by (simp add: x_def)
  have "rnd53 x \<le> x * (1 + unit_roundoff) ^ Suc 0"
    using rnd53_upper_step [of x x 0] r by simp
  also have "\<dots> \<le> x * (1 + unit_roundoff) ^ 3"
    using x by (intro mult_left_mono roundoff_power_mono) simp_all
  finally show "rnd53 (of_int t / of_int n) \<le> of_int t / of_int n * (1 + unit_roundoff) ^ 3"
    by (simp add: x_def)
qed

lemma tablet_side_enclosure:
  assumes "dimension t" "dimension n"
    and "d0 * (1 - unit_roundoff) \<le> d" "d \<le> d0 * (1 + unit_roundoff)" "1 / 2 \<le> d0"
  shows "of_int t * d0 / of_int n * (1 - unit_roundoff) ^ 3
      \<le> rnd53 (rnd53 (of_int t * d) / of_int n)"
    and "rnd53 (rnd53 (of_int t * d) / of_int n)
      \<le> of_int t * d0 / of_int n * (1 + unit_roundoff) ^ 3"
proof -
  note t = dimension_rat [OF assms(1)] and n = dimension_rat [OF assms(2)]
  note u = unit_roundoff_pos
  define c :: rat where "c = of_int t * d0"
  have c: "1 / 2 \<le> c"
  proof -
    have "1 * (1 / 2) \<le> of_int t * d0"
      using t assms(5) by (intro mult_mono) simp_all
    then show ?thesis by (simp add: c_def)
  qed
  have c0: "0 \<le> c" using c by simp
  have x1: "c * (1 - unit_roundoff) ^ Suc 0 \<le> of_int t * d"
    "of_int t * d \<le> c * (1 + unit_roundoff) ^ Suc 0"
    using assms(3,4) t by (simp_all add: c_def mult.assoc mult_left_mono)
  have "1 / 2 * (1 / 2) \<le> c * (1 - unit_roundoff) ^ Suc 0"
    using c roundoff_lower_half [of "Suc 0"] by (intro mult_mono) simp_all
  then have "1 / 4 \<le> of_int t * d" using x1(1) by simp
  then have r1: "1 / 2 ^ 64 \<le> of_int t * d"
    by (rule order_trans [rotated]) simp
  note T = rnd53_lower_step [OF r1 x1(1)] rnd53_upper_step [OF r1 x1(2)]
  define k :: rat where "k = c / of_int n"
  have x2: "k * (1 - unit_roundoff) ^ Suc (Suc 0) \<le> rnd53 (of_int t * d) / of_int n"
    "rnd53 (of_int t * d) / of_int n \<le> k * (1 + unit_roundoff) ^ Suc (Suc 0)"
    using T n by (simp_all add: k_def divide_right_mono del: power_Suc)
  have k: "1 / 2 ^ 32 \<le> k"
  proof -
    have "1 / 2 / 2 ^ 31 \<le> c / of_int n"
      using c n by (intro frac_le) simp_all
    then show ?thesis by (simp add: k_def)
  qed
  have "1 / 2 ^ 32 * (1 / 2) \<le> k * (1 - unit_roundoff) ^ Suc (Suc 0)"
    using k roundoff_lower_half [of "Suc (Suc 0)"] by (intro mult_mono) simp_all
  then have "1 / 2 ^ 32 * (1 / 2) \<le> rnd53 (of_int t * d) / of_int n"
    using x2(1) by (rule order_trans)
  moreover have "(1::rat) / 2 ^ 64 \<le> 1 / 2 ^ 32 * (1 / 2)"
    by simp
  ultimately have r2: "1 / 2 ^ 64 \<le> rnd53 (of_int t * d) / of_int n"
    by (rule order_trans [rotated])
  from rnd53_lower_step [OF r2 x2(1)] rnd53_upper_step [OF r2 x2(2)]
  show "of_int t * d0 / of_int n * (1 - unit_roundoff) ^ 3
      \<le> rnd53 (rnd53 (of_int t * d) / of_int n)"
    and "rnd53 (rnd53 (of_int t * d) / of_int n)
      \<le> of_int t * d0 / of_int n * (1 + unit_roundoff) ^ 3"
    by (simp_all add: k_def c_def numeral_3_eq_3 del: power_Suc)
qed

lemma scaled_sides_enclosure:
  assumes "dimension w" "dimension h"
    and "1 / 2 \<le> Bx" "1 / 2 \<le> By"
    and "Bx / of_int w * (1 - unit_roundoff) ^ 3 \<le> a"
    and "a \<le> Bx / of_int w * (1 + unit_roundoff) ^ 3"
    and "By / of_int h * (1 - unit_roundoff) ^ 3 \<le> b"
    and "b \<le> By / of_int h * (1 + unit_roundoff) ^ 3"
  shows "rnd53 (of_int w * min a b) \<le> Bx * (1 + unit_roundoff) ^ 4"
    and "rnd53 (of_int h * min a b) \<le> By * (1 + unit_roundoff) ^ 4"
    and "of_int w * min (Bx / of_int w) (By / of_int h) * (1 - unit_roundoff) ^ 4
          \<le> rnd53 (of_int w * min a b)"
    and "of_int h * min (Bx / of_int w) (By / of_int h) * (1 - unit_roundoff) ^ 4
          \<le> rnd53 (of_int h * min a b)"
    and "min (Bx / of_int w) (By / of_int h) * (1 - unit_roundoff) ^ 3 \<le> min a b"
proof -
  note w = dimension_rat [OF assms(1)] and h = dimension_rat [OF assms(2)]
  note u = unit_roundoff_pos
  define m where "m = min (Bx / of_int w) (By / of_int h)"
  define s where "s = min a b"
  have d3: "0 \<le> (1 - unit_roundoff) ^ 3" using u by simp
  have m: "1 / 2 ^ 32 \<le> m"
  proof -
    have "1 / 2 / 2 ^ 31 \<le> Bx / of_int w" "1 / 2 / 2 ^ 31 \<le> By / of_int h"
      using assms(3,4) w h by (intro frac_le; simp)+
    then show ?thesis by (simp add: m_def)
  qed
  have m0: "0 \<le> m" using m by (rule order_trans [rotated]) simp
  have "m * (1 - unit_roundoff) ^ 3 \<le> Bx / of_int w * (1 - unit_roundoff) ^ 3"
    "m * (1 - unit_roundoff) ^ 3 \<le> By / of_int h * (1 - unit_roundoff) ^ 3"
    unfolding m_def using d3 by (intro mult_right_mono min.cobounded1 min.cobounded2; assumption)+
  then have sl: "m * (1 - unit_roundoff) ^ 3 \<le> s"
    using assms(5,7) by (simp add: s_def)
  have su: "s \<le> Bx / of_int w * (1 + unit_roundoff) ^ 3"
    "s \<le> By / of_int h * (1 + unit_roundoff) ^ 3"
    using assms(6,8) by (simp_all add: s_def min_le_iff_disj)
  have "1 / 2 ^ 32 * (1 / 2) \<le> m * (1 - unit_roundoff) ^ 3"
    using m roundoff_lower_half [of 3] by (intro mult_mono) simp_all
  then have s33: "1 / 2 ^ 32 * (1 / 2) \<le> s" using sl by (rule order_trans)
  have s0: "0 \<le> s" using s33 by (rule order_trans [rotated]) simp
  have small: "(1::rat) / 2 ^ 64 \<le> 1 / 2 ^ 32 * (1 / 2)" by simp
  have range: "1 / 2 ^ 64 \<le> of_int n * s" if "dimension n" for n
  proof -
    have "1 * (1 / 2 ^ 32 * (1 / 2)) \<le> of_int n * s"
      using dimension_rat [OF that] s33 by (intro mult_mono) simp_all
    then show ?thesis using small by simp
  qed
  have wl: "(of_int w * m) * (1 - unit_roundoff) ^ 3 \<le> of_int w * s"
    and hl: "(of_int h * m) * (1 - unit_roundoff) ^ 3 \<le> of_int h * s"
    using sl w h by (simp_all add: mult.assoc mult_left_mono)
  have wu: "of_int w * s \<le> Bx * (1 + unit_roundoff) ^ 3"
  proof -
    have "of_int w * s \<le> of_int w * (Bx / of_int w * (1 + unit_roundoff) ^ 3)"
      using su(1) w by (intro mult_left_mono) simp_all
    then show ?thesis using w by simp
  qed
  have hu: "of_int h * s \<le> By * (1 + unit_roundoff) ^ 3"
  proof -
    have "of_int h * s \<le> of_int h * (By / of_int h * (1 + unit_roundoff) ^ 3)"
      using su(2) h by (intro mult_left_mono) simp_all
    then show ?thesis using h by simp
  qed
  have four: "Suc 3 = 4" by simp
  show "rnd53 (of_int w * min a b) \<le> Bx * (1 + unit_roundoff) ^ 4"
    using rnd53_upper_step [OF range [OF assms(1)] wu] unfolding four s_def .
  show "rnd53 (of_int h * min a b) \<le> By * (1 + unit_roundoff) ^ 4"
    using rnd53_upper_step [OF range [OF assms(2)] hu] unfolding four s_def .
  show "of_int w * min (Bx / of_int w) (By / of_int h) * (1 - unit_roundoff) ^ 4
          \<le> rnd53 (of_int w * min a b)"
    using rnd53_lower_step [OF range [OF assms(1)] wl] unfolding four s_def m_def .
  show "of_int h * min (Bx / of_int w) (By / of_int h) * (1 - unit_roundoff) ^ 4
          \<le> rnd53 (of_int h * min a b)"
    using rnd53_lower_step [OF range [OF assms(2)] hl] unfolding four s_def m_def .
  show "min (Bx / of_int w) (By / of_int h) * (1 - unit_roundoff) ^ 3 \<le> min a b"
    using sl by (simp add: m_def s_def)
qed

lemma near_bound_upper:
  assumes "0 \<le> B" "B < 2 ^ 31" "p \<le> B * (1 + unit_roundoff) ^ 4"
  shows "p < B + 1 / 10"
proof -
  have "B * (1 + unit_roundoff) ^ 4 \<le> B * (1 + 5 * unit_roundoff)"
    using assms(1) roundoff_powers(1) by (rule mult_left_mono [rotated])
  also have "\<dots> = B + B * (5 * unit_roundoff)"
    by (simp add: algebra_simps)
  also have "\<dots> \<le> B + 2 ^ 31 * (5 * unit_roundoff)"
    using assms(2) unit_roundoff_pos by (simp add: mult_right_mono)
  also have "\<dots> < B + 1 / 10"
    by (simp add: unit_roundoff_def)
  finally show ?thesis using assms(3) by simp
qed

lemma near_bound_lower:
  assumes "0 \<le> B" "B < 2 ^ 31" "B * (1 - unit_roundoff) ^ 4 \<le> p"
  shows "B - 1 / 10 < p"
proof -
  have "B - 1 / 10 < B - 2 ^ 31 * (5 * unit_roundoff)"
    by (simp add: unit_roundoff_def)
  also have "\<dots> \<le> B - B * (5 * unit_roundoff)"
    using assms(2) unit_roundoff_pos by (simp add: mult_right_mono)
  also have "\<dots> = B * (1 - 5 * unit_roundoff)"
    by (simp add: algebra_simps)
  also have "\<dots> \<le> B * (1 - unit_roundoff) ^ 4"
    using assms(1) roundoff_powers(2) by (rule mult_left_mono [rotated])
  finally show ?thesis using assms(3) by simp
qed

lemma floor_le_tenths:
  assumes "of_int c = 10 * B" "p < B + 1 / 10"
  shows "of_int \<lfloor>p\<rfloor> \<le> (B::rat)"
proof -
  have "of_int \<lfloor>p\<rfloor> \<le> p" by simp
  then have "10 * of_int \<lfloor>p\<rfloor> < (of_int c :: rat) + 1"
    using assms by linarith
  then have "(of_int (10 * \<lfloor>p\<rfloor>) :: rat) < of_int (c + 1)" by simp
  then have "10 * \<lfloor>p\<rfloor> < c + 1" by (simp only: of_int_less_iff)
  then have "10 * \<lfloor>p\<rfloor> \<le> c" by simp
  then have "(of_int (10 * \<lfloor>p\<rfloor>) :: rat) \<le> of_int c" by (simp only: of_int_le_iff)
  then show ?thesis using assms(1) by simp
qed

lemma floor_ge_tenths:
  assumes "of_int c = 10 * B" "B - 1 / 10 < p"
  shows "(B::rat) - 1 \<le> of_int \<lfloor>p\<rfloor>"
proof -
  have "p < of_int \<lfloor>p\<rfloor> + 1" by linarith
  then have "(of_int c :: rat) - 1 < 10 * of_int \<lfloor>p\<rfloor> + 10"
    using assms by linarith
  then have "(of_int (c - 1) :: rat) < of_int (10 * \<lfloor>p\<rfloor> + 10)" by simp
  then have "c - 1 < 10 * \<lfloor>p\<rfloor> + 10" by (simp only: of_int_less_iff)
  then have "c - 10 \<le> 10 * \<lfloor>p\<rfloor>" by simp
  then have "(of_int (c - 10) :: rat) \<le> of_int (10 * \<lfloor>p\<rfloor>)" by (simp only: of_int_le_iff)
  then show ?thesis using assms(1) by simp
qed

lemma scaled_floor_bounds:
  assumes "dimension w" "dimension h"
    and "1 / 2 \<le> Bx" "Bx < 2 ^ 31" "of_int cx = 10 * Bx"
    and "1 / 2 \<le> By" "By < 2 ^ 31" "of_int cy = 10 * By"
    and "Bx / of_int w * (1 - unit_roundoff) ^ 3 \<le> a"
    and "a \<le> Bx / of_int w * (1 + unit_roundoff) ^ 3"
    and "By / of_int h * (1 - unit_roundoff) ^ 3 \<le> b"
    and "b \<le> By / of_int h * (1 + unit_roundoff) ^ 3"
  shows "of_int \<lfloor>rnd53 (of_int w * min a b)\<rfloor> \<le> Bx"
    and "of_int \<lfloor>rnd53 (of_int h * min a b)\<rfloor> \<le> By"
    and "Bx - 1 \<le> of_int \<lfloor>rnd53 (of_int w * min a b)\<rfloor>
       \<or> By - 1 \<le> of_int \<lfloor>rnd53 (of_int h * min a b)\<rfloor>"
proof -
  note w = dimension_rat [OF assms(1)] and h = dimension_rat [OF assms(2)]
  note e = scaled_sides_enclosure [OF assms(1,2,3,6,9-12)]
  have Bx: "0 \<le> Bx" and By: "0 \<le> By" using assms(3,6) by simp_all
  show "of_int \<lfloor>rnd53 (of_int w * min a b)\<rfloor> \<le> Bx"
    using near_bound_upper [OF Bx assms(4) e(1)] by (rule floor_le_tenths [OF assms(5)])
  show "of_int \<lfloor>rnd53 (of_int h * min a b)\<rfloor> \<le> By"
    using near_bound_upper [OF By assms(7) e(2)] by (rule floor_le_tenths [OF assms(8)])
  show "Bx - 1 \<le> of_int \<lfloor>rnd53 (of_int w * min a b)\<rfloor>
       \<or> By - 1 \<le> of_int \<lfloor>rnd53 (of_int h * min a b)\<rfloor>"
  proof (cases "Bx / of_int w \<le> By / of_int h")
    case True
    then have "of_int w * min (Bx / of_int w) (By / of_int h) = Bx"
      using w by (simp add: min_def)
    then have "Bx * (1 - unit_roundoff) ^ 4 \<le> rnd53 (of_int w * min a b)"
      using e(3) by simp
    from near_bound_lower [OF Bx assms(4) this]
    show ?thesis using floor_ge_tenths [OF assms(5)] by blast
  next
    case False
    then have "of_int h * min (Bx / of_int w) (By / of_int h) = By"
      using h by (simp add: min_def)
    then have "By * (1 - unit_roundoff) ^ 4 \<le> rnd53 (of_int h * min a b)"
      using e(4) by simp
    from near_bound_lower [OF By assms(7) this]
    show ?thesis using floor_ge_tenths [OF assms(8)] by blast
  qed
qed

section \<open>The scaled size and its bounds\<close>

lemma float_lit_08_enclosure:
  "8 / 10 * (1 - unit_roundoff) \<le> float_lit (8 / 10)"
  "float_lit (8 / 10) \<le> 8 / 10 * (1 + unit_roundoff)"
  unfolding float_lit_08 by (simp_all add: unit_roundoff_def)

lemma float_lit_09_enclosure:
  "9 / 10 * (1 - unit_roundoff) \<le> float_lit (9 / 10)"
  "float_lit (9 / 10) \<le> 9 / 10 * (1 + unit_roundoff)"
  unfolding float_lit_09 by (simp_all add: unit_roundoff_def)

lemma target_bound:
  assumes "dimension t" "1 / 2 \<le> (d0::rat)" "d0 \<le> 1"
  shows "1 / 2 \<le> of_int t * d0" and "of_int t * d0 < 2 ^ 31"
proof -
  note t = dimension_rat [OF assms(1)]
  have "1 * (1 / 2) \<le> of_int t * d0"
    using t assms(2) by (intro mult_mono) simp_all
  then show "1 / 2 \<le> of_int t * d0" by simp
  have "of_int t * d0 \<le> of_int t * 1"
    using t assms(3) by (intro mult_left_mono) simp_all
  also have "\<dots> = of_int t" by simp
  also note t(2)
  finally show "of_int t * d0 < 2 ^ 31" .
qed

lemma feature_scaled_bounds:
  assumes "dimension tw" "dimension th" "dimension w" "dimension h"
  shows "\<exists>s nw nh. feature_graphic_scale tw th w h = Inr (s, nw, nh)
      \<and> nw \<le> tw \<and> nh \<le> th \<and> (tw - 1 \<le> nw \<or> th - 1 \<le> nh)"
proof -
  define a :: rat where "a = rnd53 (of_int tw / of_int w)"
  define b :: rat where "b = rnd53 (of_int th / of_int h)"
  define nw where "nw = \<lfloor>rnd53 (of_int w * min a b)\<rfloor>"
  define nh where "nh = \<lfloor>rnd53 (of_int h * min a b)\<rfloor>"
  have r: "feature_graphic_scale tw th w h = Inr (min a b, nw, nh)"
    unfolding feature_graphic_scale_in_range [OF assms] Let_def a_def b_def nw_def nh_def ..
  have x: "1 / 2 \<le> (of_int tw :: rat)" "(of_int tw :: rat) < 2 ^ 31"
    and y: "1 / 2 \<le> (of_int th :: rat)" "(of_int th :: rat) < 2 ^ 31"
    using dimension_rat(1,2) [OF assms(1)] dimension_rat(1,2) [OF assms(2)] by simp_all
  have cx: "(of_int (10 * tw) :: rat) = 10 * of_int tw"
    and cy: "(of_int (10 * th) :: rat) = 10 * of_int th"
    by simp_all
  note f = scaled_floor_bounds [OF assms(3,4) x cx y cy
      feature_side_enclosure [OF assms(1,3)] feature_side_enclosure [OF assms(2,4)],
      folded a_def b_def, folded nw_def nh_def]
  have "nw \<le> tw" "nh \<le> th"
    using f(1,2) by (simp_all only: of_int_le_iff)
  moreover have "tw - 1 \<le> nw \<or> th - 1 \<le> nh"
  proof -
    have "(of_int (tw - 1) :: rat) \<le> of_int nw \<or> (of_int (th - 1) :: rat) \<le> of_int nh"
      using f(3) by simp
    then show ?thesis by (simp only: of_int_le_iff)
  qed
  ultimately show ?thesis using r by blast
qed

lemma tablet_scaled_bounds:
  assumes "dimension tw" "dimension th" "dimension w" "dimension h"
  shows "\<exists>s nw nh. tablet_screenshot_scale tw th w h = Inr (s, nw, nh)
      \<and> of_int nw \<le> of_int tw * (8 / 10 :: rat) \<and> of_int nh \<le> of_int th * (9 / 10 :: rat)
      \<and> (of_int tw * (8 / 10) - 1 \<le> (of_int nw :: rat)
         \<or> of_int th * (9 / 10) - 1 \<le> (of_int nh :: rat))"
proof -
  define a :: rat where "a = rnd53 (rnd53 (of_int tw * float_lit (8 / 10)) / of_int w)"
  define b :: rat where "b = rnd53 (rnd53 (of_int th * float_lit (9 / 10)) / of_int h)"
  define nw where "nw = \<lfloor>rnd53 (of_int w * min a b)\<rfloor>"
  define nh where "nh = \<lfloor>rnd53 (of_int h * min a b)\<rfloor>"
  have r: "tablet_screenshot_scale tw th w h = Inr (min a b, nw, nh)"
    unfolding tablet_screenshot_scale_in_range [OF assms] Let_def a_def b_def nw_def nh_def ..
  have d8: "(1::rat) / 2 \<le> 8 / 10" "(8::rat) / 10 \<le> 1"
    and d9: "(1::rat) / 2 \<le> 9 / 10" "(9::rat) / 10 \<le> 1"
    by simp_all
  note x = target_bound [OF assms(1) d8] and y = target_bound [OF assms(2) d9]
  have cx: "(of_int (8 * tw) :: rat) = 10 * (of_int tw * (8 / 10))"
    and cy: "(of_int (9 * th) :: rat) = 10 * (of_int th * (9 / 10))"
    by simp_all
  note f = scaled_floor_bounds [OF assms(3,4) x cx y cy
      tablet_side_enclosure [OF assms(1,3) float_lit_08_enclosure d8(1)]
      tablet_side_enclosure [OF assms(2,4) float_lit_09_enclosure d9(1)],
      folded a_def b_def, folded nw_def nh_def]
  show ?thesis using r f by blast
qed

text \<open>
  Claim C3 as stated (one side touches its bound exactly) fails: a 49 x 1 source on the
  1024 x 500 canvas is limited by its width, and the rounded product
  \<open>49 * (1024 / 49)\<close> is the float just below 1024, so the scaled size is 1023 x 20.
\<close>

theorem limiting_dimension_counterexample:
  "\<not> (\<exists>s nw nh. feature_graphic_scale 1024 500 49 1 = Inr (s, nw, nh)
        \<and> (nw = 1024 \<or> nh = 500))"
  by (simp add: feature_49_scale)

text \<open>
  Claim C3, amended. For sides the library can hold, the scaled width is at most the target
  width times the horizontal fill fraction, the scaled height at most the target height
  times the vertical fill fraction (1 and 1 for the feature graphic, 0.8 and 0.9 for the
  tablet screenshot), and at least one of the two sides is within one pixel of its bound.
\<close>

theorem scaled_size_within_bounds:
  assumes "dimension tw" "dimension th" "dimension w" "dimension h"
  shows "(\<exists>s nw nh. feature_graphic_scale tw th w h = Inr (s, nw, nh)
      \<and> nw \<le> tw \<and> nh \<le> th \<and> (tw - 1 \<le> nw \<or> th - 1 \<le> nh))
    \<and> (\<exists>s nw nh. tablet_screenshot_scale tw th w h = Inr (s, nw, nh)
      \<and> of_int nw \<le> of_int tw * (8 / 10 :: rat) \<and> of_int nh \<le> of_int th * (9 / 10 :: rat)
      \<and> (of_int tw * (8 / 10) - 1 \<le> (of_int nw :: rat)
         \<or> of_int th * (9 / 10) - 1 \<le> (of_int nh :: rat)))"
  using feature_scaled_bounds [OF assms] tablet_scaled_bounds [OF assms] by (rule conjI)

theorem scaled_size_within_bounds_witness:
  "dimension 1024 \<and> dimension 500 \<and> dimension 49 \<and> dimension 1
   \<and> (\<exists>s nw nh. feature_graphic_scale 1024 500 49 1 = Inr (s, nw, nh)
      \<and> nw \<le> 1024 \<and> nh \<le> 500 \<and> (1024 - 1 \<le> nw \<or> 500 - 1 \<le> nh))
   \<and> (\<exists>s nw nh. tablet_screenshot_scale 1024 500 49 1 = Inr (s, nw, nh)
      \<and> of_int nw \<le> of_int 1024 * (8 / 10 :: rat) \<and> of_int nh \<le> of_int 500 * (9 / 10 :: rat)
      \<and> (of_int 1024 * (8 / 10) - 1 \<le> (of_int nw :: rat)
         \<or> of_int 500 * (9 / 10) - 1 \<le> (of_int nh :: rat)))"
proof -
  have d: "dimension 1024" "dimension 500" "dimension 49" "dimension 1"
    by (simp_all add: dimension_def)
  from scaled_size_within_bounds [OF d] d show ?thesis by (intro conjI) blast+
qed

section \<open>Small sources are enlarged\<close>








section \<open>The batch runner\<close>




lemma py_print_simps [simp]:
  "files (py_print w l) = files w" "stdout (py_print w l) = stdout w @ [l]"
  "realpath (py_print w l) = realpath w"
  by (simp_all add: py_print_def)








lemma os_path_join_examples:
  "os_path_join ''in'' ''a.png'' = ''in/a.png''" "os_path_join ''in/'' ''a.png'' = ''in/a.png''"
  "os_path_join '''' ''a.png'' = ''a.png''" "os_path_join ''in'' ''/a.png'' = ''/a.png''"
  by (simp_all add: os_path_join_def)

lemma paste_mode [simp]: "mode (paste dst src pos) = mode dst"
  by (simp add: paste_def split: prod.splits)




lemma Image_save_simps [simp]:
  "files (Image_save w img p) = (files w)(realpath w p \<mapsto> Image_file img)"
  "stdout (Image_save w img p) = stdout w" "realpath (Image_save w img p) = realpath w"
  by (simp_all add: Image_save_def)

lemma world_with_simps [simp]:
  "realpath (world_with entries) = (\<lambda>p. p)" "files (world_with entries) = map_of entries"
  "stdout (world_with entries) = []"
  by (simp_all add: world_with_def)




end
